theory Spec2Isabelle
  imports Complex_Main "HOL-Library.Multiset" "HOL-Library.List_Lexorder" "HOL-Library.Char_ord"
    "HOL-Library.Product_Lexorder"
begin

section \<open>Python values, exceptions and outcomes\<close>

text \<open>
  The agents exchange JSON-shaped Python values: what \<^verbatim>\<open>json.load\<close> returns, the
  tuples built by the catalog loaders, and the dictionaries the tools return. A dictionary
  is an association list of its items in insertion order; the keys of a parsed JSON
  object are strings, and a lookup sees the first item with the key.
  \<open>PFloat\<close> holds a finite float by its exact value; \<open>PFloatSpecial\<close> stands for
  the non-finite floats (\<^verbatim>\<open>NaN\<close>, \<^verbatim>\<open>Infinity\<close>) that \<^verbatim>\<open>json.load\<close> also accepts.
\<close>

datatype pyval =
    PNone
  | PBool bool
  | PInt int
  | PFloat rat
  | PFloatSpecial
  | PStr string
  | PList "pyval list"
  | PTuple "pyval list"
  | PDict "(string \<times> pyval) list"

text \<open>
  An exception carries the text that \<^verbatim>\<open>str(e)\<close> yields. Exceptions raised by the
  interpreter itself use the wording of CPython 3.11; \<open>HTTPError\<close> is
  \<^verbatim>\<open>requests.HTTPError\<close>, and \<open>OtherError\<close> is any other exception raised by a
  library call (file access, JSON parsing, transport, the device library).
\<close>

datatype pyexn =
    KeyError string
  | TypeError string
  | AttributeError string
  | IndexError string
  | ValueError string
  | NameError string
  | HTTPError string
  | OtherError string

fun str_exn :: "pyexn \<Rightarrow> string" where
  "str_exn (KeyError k) = [CHR 0x27] @ k @ [CHR 0x27]"
| "str_exn (TypeError m) = m"
| "str_exn (AttributeError m) = m"
| "str_exn (IndexError m) = m"
| "str_exn (ValueError m) = m"
| "str_exn (NameError m) = m"
| "str_exn (HTTPError m) = m"
| "str_exn (OtherError m) = m"

text \<open>
  A call returns a value or raises. \<open>Unmodelled\<close> marks where this development
  stops: a call of \<^verbatim>\<open>difflib.get_close_matches\<close> on a catalog holding a field that is
  not a string, and the formatting of such a field into a message.
\<close>

datatype 'a outcome = Returns 'a | Raises pyexn | Unmodelled

fun type_name :: "pyval \<Rightarrow> string" where
  "type_name PNone = ''NoneType''"
| "type_name (PBool _) = ''bool''"
| "type_name (PInt _) = ''int''"
| "type_name (PFloat _) = ''float''"
| "type_name PFloatSpecial = ''float''"
| "type_name (PStr _) = ''str''"
| "type_name (PList _) = ''list''"
| "type_name (PTuple _) = ''tuple''"
| "type_name (PDict _) = ''dict''"

text \<open>Python truthiness, as tested by \<^verbatim>\<open>not x\<close>.\<close>

fun truthy :: "pyval \<Rightarrow> bool" where
  "truthy PNone = False"
| "truthy (PBool b) = b"
| "truthy (PInt n) = (n \<noteq> 0)"
| "truthy (PFloat r) = (r \<noteq> 0)"
| "truthy PFloatSpecial = True"
| "truthy (PStr s) = (s \<noteq> [])"
| "truthy (PList xs) = (xs \<noteq> [])"
| "truthy (PTuple xs) = (xs \<noteq> [])"
| "truthy (PDict kvs) = (kvs \<noteq> [])"

text \<open>\<^verbatim>\<open>d.get(k)\<close> and \<^verbatim>\<open>d.get(k, default)\<close> on a dictionary.\<close>

definition dict_get :: "(string \<times> pyval) list \<Rightarrow> string \<Rightarrow> pyval" where
  "dict_get kvs k = (case map_of kvs k of None \<Rightarrow> PNone | Some v \<Rightarrow> v)"

definition dict_get_default :: "(string \<times> pyval) list \<Rightarrow> string \<Rightarrow> pyval \<Rightarrow> pyval" where
  "dict_get_default kvs k d = (case map_of kvs k of None \<Rightarrow> d | Some v \<Rightarrow> v)"

text \<open>
  The test \<^verbatim>\<open>m in s\<close> on two strings: \<open>m\<close> occurs in \<open>s\<close>.
\<close>

fun starts_with :: "string \<Rightarrow> string \<Rightarrow> bool" where
  "starts_with [] s = True"
| "starts_with (c # cs) [] = False"
| "starts_with (c # cs) (d # ds) = (c = d \<and> starts_with cs ds)"

fun str_in :: "string \<Rightarrow> string \<Rightarrow> bool" where
  "str_in m [] = (m = [])"
| "str_in m (c # cs) = (starts_with m (c # cs) \<or> str_in m cs)"

section \<open>The standard library's difflib, as the resolvers call it\<close>

text \<open>
  The resolvers call \<^verbatim>\<open>difflib.get_close_matches(word, possibilities, n=1, cutoff=0.6)\<close>.
  This section follows CPython's \<^verbatim>\<open>difflib.py\<close> and \<^verbatim>\<open>heapq.py\<close> for that call:
  a \<^verbatim>\<open>SequenceMatcher\<close> with no junk predicate and \<^verbatim>\<open>autojunk=True\<close>, whose second
  sequence \<open>b\<close> is the query and whose first sequence \<open>a\<close> is the candidate.

  Scores are Python floats \<^verbatim>\<open>2.0 * matches / length\<close>; here they are exact rationals.
  The two agree on every comparison made below (with the cutoff and between scores) for
  sequences whose combined length stays below \<open>2^26\<close>, since two distinct such fractions
  differ by more than the rounding error of a double.
\<close>

definition calculate_ratio :: "nat \<Rightarrow> nat \<Rightarrow> rat" where
  "calculate_ratio matches len = (if len \<noteq> 0 then 2 * of_nat matches / of_nat len else 1)"

text \<open>
  \<^verbatim>\<open>__chain_b\<close>: \<open>b2j\<close> maps each element of \<open>b\<close> to the increasing list of its
  positions; with \<open>autojunk\<close> and \<open>len(b) >= 200\<close>, an element occurring more than
  \<open>len(b) // 100 + 1\<close> times is popular and loses its entry. \<open>b2j_get b elt\<close> is
  \<^verbatim>\<open>b2j.get(elt, [])\<close>.
\<close>

definition indices_of :: "'a list \<Rightarrow> 'a \<Rightarrow> nat list" where
  "indices_of b elt = [j \<leftarrow> [0..<length b]. b ! j = elt]"

definition popular :: "'a list \<Rightarrow> 'a \<Rightarrow> bool" where
  "popular b elt \<longleftrightarrow> length b \<ge> 200 \<and> length (indices_of b elt) > length b div 100 + 1"

definition b2j_get :: "'a list \<Rightarrow> 'a \<Rightarrow> nat list" where
  "b2j_get b elt = (if popular b elt then [] else indices_of b elt)"

text \<open>
  \<^verbatim>\<open>j2len.get(j-1, 0)\<close>: for \<open>j = 0\<close> the key is \<open>-1\<close>, which is never in the
  dictionary.
\<close>

definition j2lenget :: "(nat \<rightharpoonup> nat) \<Rightarrow> nat \<Rightarrow> nat" where
  "j2lenget j2len j = (if j = 0 then 0 else case j2len (j - 1) of None \<Rightarrow> 0 | Some k \<Rightarrow> k)"

type_synonym match = "nat \<times> nat \<times> nat"

text \<open>
  The inner loop of \<^verbatim>\<open>find_longest_match\<close> over the positions \<open>j\<close> of \<open>a[i]\<close> in
  \<open>b\<close>: \<^verbatim>\<open>continue\<close> below \<open>blo\<close>, \<^verbatim>\<open>break\<close> from \<open>bhi\<close> on, otherwise
  \<^verbatim>\<open>k = newj2len[j] = j2lenget(j-1, 0) + 1\<close> and the best match is replaced when
  \<open>k > bestsize\<close>, by \<^verbatim>\<open>(i-k+1, j-k+1, k)\<close>.
\<close>

fun scan_row :: "nat \<Rightarrow> nat \<Rightarrow> nat \<Rightarrow> (nat \<rightharpoonup> nat) \<Rightarrow> nat list \<Rightarrow>
    (nat \<rightharpoonup> nat) \<times> match \<Rightarrow> (nat \<rightharpoonup> nat) \<times> match" where
  "scan_row i blo bhi j2len [] st = st"
| "scan_row i blo bhi j2len (j # js) (newj2len, besti, bestj, bestsize) =
     (if j < blo then scan_row i blo bhi j2len js (newj2len, besti, bestj, bestsize)
      else if j \<ge> bhi then (newj2len, besti, bestj, bestsize)
      else let k = j2lenget j2len j + 1 in
        scan_row i blo bhi j2len js
          (newj2len(j \<mapsto> k),
           if k > bestsize then (Suc i - k, Suc j - k, k) else (besti, bestj, bestsize)))"

text \<open>The outer loop, \<^verbatim>\<open>for i in range(alo, ahi)\<close>, with \<^verbatim>\<open>j2len = newj2len\<close> after each row.\<close>

fun scan_rows :: "'a list \<Rightarrow> 'a list \<Rightarrow> nat \<Rightarrow> nat \<Rightarrow> nat list \<Rightarrow>
    (nat \<rightharpoonup> nat) \<times> match \<Rightarrow> match" where
  "scan_rows a b blo bhi [] (j2len, best) = best"
| "scan_rows a b blo bhi (i # is) (j2len, best) =
     scan_rows a b blo bhi is (scan_row i blo bhi j2len (b2j_get b (a ! i)) (Map.empty, best))"

text \<open>
  The two loops that extend the best match by elements that are not junk. The junk set is
  empty (no junk predicate), so the test \<^verbatim>\<open>not isbjunk(...)\<close> is always true, and the two
  further loops of the source, which extend by junk elements only, never run.
\<close>

fun extend_left :: "'a list \<Rightarrow> 'a list \<Rightarrow> nat \<Rightarrow> nat \<Rightarrow> match \<Rightarrow> match" where
  "extend_left a b alo blo (besti, bestj, bestsize) =
     (if besti > alo \<and> bestj > blo \<and> a ! (besti - 1) = b ! (bestj - 1)
      then extend_left a b alo blo (besti - 1, bestj - 1, bestsize + 1)
      else (besti, bestj, bestsize))"

function extend_right :: "'a list \<Rightarrow> 'a list \<Rightarrow> nat \<Rightarrow> nat \<Rightarrow> match \<Rightarrow> match" where
  "extend_right a b ahi bhi (besti, bestj, bestsize) =
     (if besti + bestsize < ahi \<and> bestj + bestsize < bhi
         \<and> a ! (besti + bestsize) = b ! (bestj + bestsize)
      then extend_right a b ahi bhi (besti, bestj, bestsize + 1)
      else (besti, bestj, bestsize))"
  by pat_completeness auto
termination
  by (relation "measure (\<lambda>(a, b, ahi, bhi, besti, bestj, bestsize). ahi - (besti + bestsize))")
    auto

definition find_longest_match ::
    "'a list \<Rightarrow> 'a list \<Rightarrow> nat \<Rightarrow> nat \<Rightarrow> nat \<Rightarrow> nat \<Rightarrow> match" where
  "find_longest_match a b alo ahi blo bhi =
     extend_right a b ahi bhi
       (extend_left a b alo blo
         (scan_rows a b blo bhi [alo..<ahi] (Map.empty, (alo, blo, 0))))"

text \<open>
  What \<^verbatim>\<open>find_longest_match\<close> returns is a match inside the two windows: either the
  empty match at \<open>(alo, blo)\<close>, or a block \<open>a[i:i+k] == b[j:j+k]\<close> with
  \<open>alo \<le> i\<close>, \<open>i+k \<le> ahi\<close>, \<open>blo \<le> j\<close>, \<open>j+k \<le> bhi\<close>. The loop over matching
  blocks terminates because of it. \<open>prev_ok\<close> is the invariant of the dictionary
  \<open>j2len\<close> before row \<open>i\<close>: an entry \<open>j \<mapsto> k\<close> is a common run of length \<open>k\<close>
  ending at \<open>a[i-1]\<close> and \<open>b[j]\<close>.
\<close>

definition prev_ok :: "'a list \<Rightarrow> 'a list \<Rightarrow> nat \<Rightarrow> nat \<Rightarrow> nat \<Rightarrow> nat \<Rightarrow> (nat \<rightharpoonup> nat) \<Rightarrow> bool" where
  "prev_ok a b alo blo bhi i d \<longleftrightarrow>
     (\<forall>j k. d j = Some k \<longrightarrow>
        1 \<le> k \<and> k + alo \<le> i \<and> k + blo \<le> Suc j \<and> j < bhi \<and> (\<forall>t<k. a ! (i - 1 - t) = b ! (j - t)))"

definition valid_match :: "'a list \<Rightarrow> 'a list \<Rightarrow> nat \<Rightarrow> nat \<Rightarrow> nat \<Rightarrow> nat \<Rightarrow> match \<Rightarrow> bool" where
  "valid_match a b alo ahi blo bhi m \<longleftrightarrow>
     (case m of (i, j, k) \<Rightarrow>
        (k = 0 \<and> i = alo \<and> j = blo) \<or>
        (alo \<le> i \<and> i + k \<le> ahi \<and> blo \<le> j \<and> j + k \<le> bhi \<and> (\<forall>t<k. a ! (i + t) = b ! (j + t))))"

lemma prev_ok_empty: "prev_ok a b alo blo bhi i Map.empty"
  by (simp add: prev_ok_def)

lemma j2lenget_step:
  assumes "prev_ok a b alo blo bhi i d" "b ! j = a ! i" "alo \<le> i" "blo \<le> j" "j < bhi"
  shows "j2lenget d j + alo \<le> i \<and> j2lenget d j + blo \<le> j
     \<and> (\<forall>t<Suc (j2lenget d j). a ! (i - t) = b ! (j - t))"
proof (cases "j = 0 \<or> d (j - 1) = None")
  case True
  then have "j2lenget d j = 0" by (auto simp: j2lenget_def)
  with assms(2,3,4) show ?thesis by simp
next
  case False
  then obtain k' where k': "d (j - 1) = Some k'" and j: "j \<noteq> 0" by auto
  then have k: "j2lenget d j = k'" by (simp add: j2lenget_def)
  from assms(1) k' have p: "k' + alo \<le> i" "k' + blo \<le> Suc (j - 1)"
    "\<forall>t<k'. a ! (i - 1 - t) = b ! (j - 1 - t)"
    unfolding prev_ok_def by blast+
  have "a ! (i - t) = b ! (j - t)" if "t < Suc k'" for t
  proof (cases t)
    case 0
    with assms(2) show ?thesis by simp
  next
    case (Suc t')
    with that have "t' < k'" by simp
    with p(3) have "a ! (i - 1 - t') = b ! (j - 1 - t')" by blast
    with Suc show ?thesis by simp
  qed
  with p j k show ?thesis by simp
qed

lemma scan_row_ok:
  assumes "prev_ok a b alo blo bhi i d" "\<forall>j\<in>set js. b ! j = a ! i" "alo \<le> i" "i < ahi"
    "prev_ok a b alo blo bhi (Suc i) new" "valid_match a b alo ahi blo bhi best"
    "scan_row i blo bhi d js (new, best) = (new', best')"
  shows "prev_ok a b alo blo bhi (Suc i) new' \<and> valid_match a b alo ahi blo bhi best'"
  using assms(2,5,6,7)
proof (induction js arbitrary: new best)
  case Nil
  then show ?case by simp
next
  case (Cons j js)
  obtain bi bj bk where best: "best = (bi, bj, bk)" by (cases best)
  from Cons.prems(1) have rest: "\<forall>j\<in>set js. b ! j = a ! i" by simp
  show ?case
  proof (cases "j < blo")
    case True
    with Cons.prems(4) best have "scan_row i blo bhi d js (new, best) = (new', best')" by simp
    from Cons.IH[OF rest Cons.prems(2) Cons.prems(3) this] show ?thesis .
  next
    case lo: False
    show ?thesis
    proof (cases "j \<ge> bhi")
      case True
      with lo Cons.prems(4) best have "new' = new" "best' = best" by simp_all
      with Cons.prems(2,3) show ?thesis by simp
    next
      case hi: False
      define k where "k = j2lenget d j + 1"
      from Cons.prems(1) have bj: "b ! j = a ! i" by simp
      from lo hi have lo': "blo \<le> j" and hi': "j < bhi" by simp_all
      from j2lenget_step[OF assms(1) bj assms(3) lo' hi']
      have st: "1 \<le> k" "k + alo \<le> Suc i" "k + blo \<le> Suc j" "\<forall>t<k. a ! (i - t) = b ! (j - t)"
        by (simp_all add: k_def)
      have new_ok: "prev_ok a b alo blo bhi (Suc i) (new(j \<mapsto> k))"
        unfolding prev_ok_def
      proof (intro allI impI)
        fix j' k' assume h: "(new(j \<mapsto> k)) j' = Some k'"
        show "1 \<le> k' \<and> k' + alo \<le> Suc i \<and> k' + blo \<le> Suc j' \<and> j' < bhi
           \<and> (\<forall>t<k'. a ! (Suc i - 1 - t) = b ! (j' - t))"
        proof (cases "j' = j")
          case True
          with h have "k' = k" by simp
          with True st hi' show ?thesis by simp
        next
          case False
          with h have "new j' = Some k'" by simp
          with Cons.prems(2) show ?thesis unfolding prev_ok_def by blast
        qed
      qed
      have seg: "a ! (Suc i - k + t) = b ! (Suc j - k + t)" if "t < k" for t
      proof -
        from that have "k - 1 - t < k" by simp
        with st(4) have e: "a ! (i - (k - 1 - t)) = b ! (j - (k - 1 - t))" by blast
        from that st have "i - (k - 1 - t) = Suc i - k + t" "j - (k - 1 - t) = Suc j - k + t"
          by linarith+
        with e show ?thesis by (simp only:)
      qed
      have vm: "valid_match a b alo ahi blo bhi (Suc i - k, Suc j - k, k)"
      proof -
        from st assms(4) hi' have "alo \<le> Suc i - k" "Suc i - k + k \<le> ahi" "blo \<le> Suc j - k"
          "Suc j - k + k \<le> bhi" by linarith+
        with seg show ?thesis unfolding valid_match_def by simp
      qed
      define best2 where "best2 = (if k > bk then (Suc i - k, Suc j - k, k) else (bi, bj, bk))"
      have vb: "valid_match a b alo ahi blo bhi best2"
        using vm Cons.prems(3) best by (simp add: best2_def)
      have "scan_row i blo bhi d (j # js) (new, bi, bj, bk)
          = scan_row i blo bhi d js (new(j \<mapsto> k), best2)"
        using lo hi unfolding best2_def k_def
        by (simp only: scan_row.simps Let_def if_False)
      with Cons.prems(4) best have "scan_row i blo bhi d js (new(j \<mapsto> k), best2) = (new', best')"
        by simp
      from Cons.IH[OF rest new_ok vb this] show ?thesis .
    qed
  qed
qed

lemma b2j_get_elt: "j \<in> set (b2j_get b elt) \<Longrightarrow> b ! j = elt"
  by (auto simp: b2j_get_def indices_of_def split: if_splits)

lemma scan_rows_ok:
  assumes "prev_ok a b alo blo bhi i d" "alo \<le> i" "valid_match a b alo ahi blo bhi best"
  shows "valid_match a b alo ahi blo bhi (scan_rows a b blo bhi [i..<ahi] (d, best))"
  using assms
proof (induction "ahi - i" arbitrary: i d best)
  case 0
  then show ?case by simp
next
  case (Suc n)
  then have lt: "i < ahi" by simp
  obtain new' best' where r: "scan_row i blo bhi d (b2j_get b (a ! i)) (Map.empty, best) = (new', best')"
    by (cases "scan_row i blo bhi d (b2j_get b (a ! i)) (Map.empty, best)")
  have "prev_ok a b alo blo bhi (Suc i) new' \<and> valid_match a b alo ahi blo bhi best'"
    by (rule scan_row_ok[OF Suc.prems(1) _ Suc.prems(2) lt prev_ok_empty Suc.prems(3) r])
       (simp add: b2j_get_elt)
  moreover from Suc have "n = ahi - Suc i" by simp
  ultimately have "valid_match a b alo ahi blo bhi (scan_rows a b blo bhi [Suc i..<ahi] (new', best'))"
    using Suc.hyps(1) Suc.prems(2) by simp
  with lt r show ?case by (simp add: upt_conv_Cons)
qed

lemma valid_matchI:
  "alo \<le> i \<Longrightarrow> i + k \<le> ahi \<Longrightarrow> blo \<le> j \<Longrightarrow> j + k \<le> bhi
     \<Longrightarrow> (\<And>t. t < k \<Longrightarrow> a ! (i + t) = b ! (j + t))
     \<Longrightarrow> valid_match a b alo ahi blo bhi (i, j, k)"
  by (simp add: valid_match_def)

lemma valid_match_start: "valid_match a b alo ahi blo bhi (alo, blo, 0)"
  by (simp add: valid_match_def)

lemma extend_left_ok:
  "valid_match a b alo ahi blo bhi m \<Longrightarrow> valid_match a b alo ahi blo bhi (extend_left a b alo blo m)"
proof (induction a b alo blo m rule: extend_left.induct)
  case (1 a b alo blo besti bestj bestsize)
  show ?case
  proof (cases "besti > alo \<and> bestj > blo \<and> a ! (besti - 1) = b ! (bestj - 1)")
    case True
    from True "1.prems" have v: "besti + bestsize \<le> ahi" "bestj + bestsize \<le> bhi"
      "\<forall>t<bestsize. a ! (besti + t) = b ! (bestj + t)"
      unfolding valid_match_def by simp_all
    have "valid_match a b alo ahi blo bhi (besti - 1, bestj - 1, bestsize + 1)"
    proof (rule valid_matchI)
      fix t assume t: "t < bestsize + 1"
      show "a ! (besti - 1 + t) = b ! (bestj - 1 + t)"
      proof (cases t)
        case 0
        with True show ?thesis by simp
      next
        case (Suc t')
        with t have "t' < bestsize" by simp
        with v(3) have "a ! (besti + t') = b ! (bestj + t')" by blast
        moreover from True Suc have "besti - 1 + t = besti + t'" "bestj - 1 + t = bestj + t'"
          by linarith+
        ultimately show ?thesis by (simp only:)
      qed
    qed (use True v in linarith)+
    moreover have "extend_left a b alo blo (besti, bestj, bestsize)
        = extend_left a b alo blo (besti - 1, bestj - 1, bestsize + 1)"
      by (subst extend_left.simps) (simp only: True if_True simp_thms)
    ultimately show ?thesis using "1.IH"[OF True] by (simp only:)
  next
    case False
    then have "extend_left a b alo blo (besti, bestj, bestsize) = (besti, bestj, bestsize)"
      by (subst extend_left.simps) (simp only: if_False)
    with "1.prems" show ?thesis by (simp only:)
  qed
qed

lemma extend_right_ok:
  "valid_match a b alo ahi blo bhi m \<Longrightarrow> valid_match a b alo ahi blo bhi (extend_right a b ahi bhi m)"
proof (induction a b ahi bhi m rule: extend_right.induct)
  case (1 a b ahi bhi besti bestj bestsize)
  show ?case
  proof (cases "besti + bestsize < ahi \<and> bestj + bestsize < bhi
         \<and> a ! (besti + bestsize) = b ! (bestj + bestsize)")
    case True
    from "1.prems" have v: "alo \<le> besti" "blo \<le> bestj"
      "\<forall>t<bestsize. a ! (besti + t) = b ! (bestj + t)"
      unfolding valid_match_def by auto
    have "valid_match a b alo ahi blo bhi (besti, bestj, bestsize + 1)"
    proof (rule valid_matchI)
      fix t assume t: "t < bestsize + 1"
      show "a ! (besti + t) = b ! (bestj + t)"
      proof (cases "t = bestsize")
        case True
        with \<open>besti + bestsize < ahi \<and> _\<close> show ?thesis by simp
      next
        case False
        with t have "t < bestsize" by simp
        with v(3) show ?thesis by blast
      qed
    qed (use True v in linarith)+
    moreover have "extend_right a b ahi bhi (besti, bestj, bestsize)
        = extend_right a b ahi bhi (besti, bestj, bestsize + 1)"
      by (subst extend_right.simps) (simp only: True if_True simp_thms)
    ultimately show ?thesis using "1.IH"[OF True] by (simp only:)
  next
    case False
    then have "extend_right a b ahi bhi (besti, bestj, bestsize) = (besti, bestj, bestsize)"
      by (subst extend_right.simps) (simp only: if_False)
    with "1.prems" show ?thesis by (simp only:)
  qed
qed

lemma find_longest_match_valid:
  "valid_match a b alo ahi blo bhi (find_longest_match a b alo ahi blo bhi)"
  unfolding find_longest_match_def
  by (intro extend_right_ok extend_left_ok scan_rows_ok prev_ok_empty valid_match_start order_refl)


text \<open>
  \<^verbatim>\<open>get_matching_blocks\<close>: a work list of windows \<open>(alo, ahi, blo, bhi)\<close>, used as a
  stack (\<^verbatim>\<open>queue.pop()\<close> takes the window appended last; here the head of the list).
  After a non-empty match the left window is appended first and the right window second,
  so the right one is taken next. \<open>window_weight\<close> is the termination measure.
\<close>

type_synonym window = "nat \<times> nat \<times> nat \<times> nat"

fun window_weight :: "window \<Rightarrow> nat" where
  "window_weight (alo, ahi, blo, bhi) = 2 * (ahi - alo) + 1"

lemma find_longest_match_bounds:
  assumes "find_longest_match a b alo ahi blo bhi = (i, j, k)" "k \<noteq> 0"
  shows "alo \<le> i" "i + k \<le> ahi" "blo \<le> j" "j + k \<le> bhi" "\<forall>t<k. a ! (i + t) = b ! (j + t)"
  using find_longest_match_valid[of a b alo ahi blo bhi] assms
  by (simp_all add: valid_match_def)

lemma window_weight_decrease:
  assumes "find_longest_match a b alo ahi blo bhi = (i, j, k)" "k \<noteq> 0"
  shows "sum_list (map window_weight
           ((if i + k < ahi \<and> j + k < bhi then [(i + k, ahi, j + k, bhi)] else [])
              @ (if alo < i \<and> blo < j then [(alo, i, blo, j)] else []) @ queue))
         < sum_list (map window_weight ((alo, ahi, blo, bhi) # queue))"
  using find_longest_match_bounds(1,2)[OF assms] assms(2) by auto

function matching_blocks_loop :: "'a list \<Rightarrow> 'a list \<Rightarrow> window list \<Rightarrow> match list \<Rightarrow> match list" where
  "matching_blocks_loop a b [] matching_blocks = matching_blocks"
| "matching_blocks_loop a b ((alo, ahi, blo, bhi) # queue) matching_blocks =
     (case find_longest_match a b alo ahi blo bhi of (i, j, k) \<Rightarrow>
        if k \<noteq> 0 then
          matching_blocks_loop a b
            ((if i + k < ahi \<and> j + k < bhi then [(i + k, ahi, j + k, bhi)] else [])
              @ (if alo < i \<and> blo < j then [(alo, i, blo, j)] else []) @ queue)
            (matching_blocks @ [(i, j, k)])
        else matching_blocks_loop a b queue matching_blocks)"
  by pat_completeness auto
termination
proof (relation "measure (\<lambda>(a, b, queue, blocks). sum_list (map window_weight queue))", goal_cases)
  case 1
  show ?case by simp
next
  case 2
  note f = 2(1)[symmetric, unfolded 2(2)[symmetric]]
  from window_weight_decrease[OF f 2(3)] show ?case
    by (simp only: in_measure prod.case)
next
  case 3
  then show ?case by simp
qed

definition get_matching_blocks :: "'a list \<Rightarrow> 'a list \<Rightarrow> match list" where
  "get_matching_blocks a b = matching_blocks_loop a b [(0, length a, 0, length b)] []"

text \<open>
  \<^verbatim>\<open>ratio\<close> sums the sizes of the matching blocks. The source first sorts the blocks,
  merges adjacent ones and appends a block of size 0; none of this changes the sum, and
  it is left out here.
\<close>

definition ratio :: "'a list \<Rightarrow> 'a list \<Rightarrow> rat" where
  "ratio a b =
     calculate_ratio (sum_list (map (\<lambda>(i, j, k). k) (get_matching_blocks a b))) (length a + length b)"

text \<open>
  \<^verbatim>\<open>quick_ratio\<close>: \<open>fullbcount\<close> counts each element of \<open>b\<close>
  (\<^verbatim>\<open>fullbcount.get(elt, 0)\<close> is \<open>count_list b elt\<close>); \<open>avail\<close> holds what is left of
  each count and may go below zero.
\<close>

fun quick_loop :: "'a list \<Rightarrow> ('a \<rightharpoonup> int) \<Rightarrow> 'a list \<Rightarrow> nat \<Rightarrow> nat" where
  "quick_loop b avail [] matches = matches"
| "quick_loop b avail (elt # rest) matches =
     (let numb = (case avail elt of Some n \<Rightarrow> n | None \<Rightarrow> int (count_list b elt))
      in quick_loop b (avail(elt \<mapsto> numb - 1)) rest (if numb > 0 then matches + 1 else matches))"

definition quick_ratio :: "'a list \<Rightarrow> 'a list \<Rightarrow> rat" where
  "quick_ratio a b = calculate_ratio (quick_loop b Map.empty a 0) (length a + length b)"

definition real_quick_ratio :: "'a list \<Rightarrow> 'a list \<Rightarrow> rat" where
  "real_quick_ratio a b = calculate_ratio (min (length a) (length b)) (length a + length b)"

definition cutoff :: rat where
  "cutoff = 6 / 10"

text \<open>
  \<^verbatim>\<open>heapq.nlargest(1, result)\<close> is \<^verbatim>\<open>max(result)\<close>, or nothing for an empty list.
  \<^verbatim>\<open>max\<close> keeps the first item and replaces it only by a strictly greater one. The items
  are tuples \<open>(score, x)\<close>, compared lexicographically: by score, and by the string \<open>x\<close>
  (itself compared lexicographically, character by character) when the scores are equal.
\<close>

fun max_loop :: "'b::linorder \<Rightarrow> 'b list \<Rightarrow> 'b" where
  "max_loop maxitem [] = maxitem"
| "max_loop maxitem (item # rest) = max_loop (if item > maxitem then item else maxitem) rest"

definition nlargest1 :: "'b::linorder list \<Rightarrow> 'b list" where
  "nlargest1 xs = (case xs of [] \<Rightarrow> [] | x # rest \<Rightarrow> [max_loop x rest])"

text \<open>
  \<^verbatim>\<open>get_close_matches(word, possibilities, n=1, cutoff=0.6)\<close>: every possibility \<open>x\<close>
  that passes the three tests is recorded with its score, in the order of
  \<open>possibilities\<close>; the largest tuple is kept and its score stripped.
\<close>

definition get_close_matches :: "'a::linorder list \<Rightarrow> 'a list list \<Rightarrow> 'a list list" where
  "get_close_matches word possibilities =
     map snd (nlargest1
       [(ratio x word, x). x \<leftarrow> possibilities,
          real_quick_ratio x word \<ge> cutoff \<and> quick_ratio x word \<ge> cutoff \<and> ratio x word \<ge> cutoff])"

section \<open>Catalog files and their loaders\<close>

text \<open>
  The state of a catalog file when a loader runs: \<open>Missing\<close> when
  \<^verbatim>\<open>os.path.exists\<close> is false; \<open>Unreadable e\<close> when \<^verbatim>\<open>open\<close> or
  \<^verbatim>\<open>json.load\<close> raises \<open>e\<close>; \<open>Parsed v\<close> when \<^verbatim>\<open>json.load\<close> returns \<open>v\<close>.
\<close>

datatype source = Missing | Unreadable pyexn | Parsed pyval

text \<open>
  A loader returns either the dictionary \<^verbatim>\<open>{"error": msg}\<close> or a list of entries.
\<close>

datatype 'a loaded = LoadFailed string | Loaded "'a list"

definition sq :: "string \<Rightarrow> string" where
  "sq s = [CHR 0x27] @ s @ [CHR 0x27]"

definition error_dict :: "string \<Rightarrow> pyval" where
  "error_dict msg = PDict [(''error'', PStr msg)]"

text \<open>\<^verbatim>\<open>for entry in data\<close>: a dictionary yields its keys, a string its characters.\<close>

fun py_iter :: "pyval \<Rightarrow> pyexn + pyval list" where
  "py_iter (PList xs) = Inr xs"
| "py_iter (PTuple xs) = Inr xs"
| "py_iter (PStr s) = Inr (map (\<lambda>c. PStr [c]) s)"
| "py_iter (PDict kvs) = Inr (map (\<lambda>kv. PStr (fst kv)) kvs)"
| "py_iter v = Inl (TypeError (sq (type_name v) @ '' object is not iterable''))"

text \<open>\<^verbatim>\<open>entry[key]\<close> for a string key.\<close>

fun subscript_key :: "pyval \<Rightarrow> string \<Rightarrow> pyexn + pyval" where
  "subscript_key (PDict kvs) key =
     (case map_of kvs key of None \<Rightarrow> Inl (KeyError key) | Some v \<Rightarrow> Inr v)"
| "subscript_key (PStr s) key = Inl (TypeError (''string indices must be integers, not '' @ sq ''str''))"
| "subscript_key (PList xs) key = Inl (TypeError ''list indices must be integers or slices, not str'')"
| "subscript_key (PTuple xs) key = Inl (TypeError ''tuple indices must be integers or slices, not str'')"
| "subscript_key v key = Inl (TypeError (sq (type_name v) @ '' object is not subscriptable''))"

text \<open>A list comprehension whose element expression may raise: the first raise ends it.\<close>

fun collect :: "('a \<Rightarrow> pyexn + 'b) \<Rightarrow> 'a list \<Rightarrow> pyexn + 'b list" where
  "collect f [] = Inr []"
| "collect f (x # xs) =
     (case f x of Inl e \<Rightarrow> Inl e
      | Inr y \<Rightarrow> (case collect f xs of Inl e \<Rightarrow> Inl e | Inr ys \<Rightarrow> Inr (y # ys)))"

text \<open>\<^verbatim>\<open>(entry['URL'], entry.get('Name', ''))\<close>; the subscript is evaluated first.\<close>

fun url_entry :: "pyval \<Rightarrow> pyexn + (pyval \<times> pyval)" where
  "url_entry (PDict kvs) =
     (case subscript_key (PDict kvs) ''URL'' of Inl e \<Rightarrow> Inl e
      | Inr u \<Rightarrow> Inr (u, dict_get_default kvs ''Name'' (PStr [])))"
| "url_entry v = (case subscript_key v ''URL'' of Inl e \<Rightarrow> Inl e
      | Inr u \<Rightarrow> Inl (AttributeError (sq (type_name v) @ '' object has no attribute '' @ sq ''get'')))"

text \<open>
  \<^verbatim>\<open>load_urls(file_path)\<close> of \<^verbatim>\<open>aci_agent.py\<close> and \<^verbatim>\<open>ise_agent.py\<close> (the two differ
  in the default \<open>file_path\<close> only).
\<close>

definition load_urls :: "string \<Rightarrow> source \<Rightarrow> (pyval \<times> pyval) loaded" where
  "load_urls file_path src =
     (case src of
        Missing \<Rightarrow> LoadFailed (''URLs file '' @ sq file_path @ '' not found.'')
      | Unreadable e \<Rightarrow> LoadFailed (''Error loading URLs: '' @ str_exn e)
      | Parsed data \<Rightarrow>
          (case py_iter data of
             Inl e \<Rightarrow> LoadFailed (''Error loading URLs: '' @ str_exn e)
           | Inr entries \<Rightarrow>
               (case collect url_entry entries of
                  Inl e \<Rightarrow> LoadFailed (''Error loading URLs: '' @ str_exn e)
                | Inr url_list \<Rightarrow> Loaded url_list)))"

text \<open>\<^verbatim>\<open>load_supported_commands()\<close> of \<^verbatim>\<open>ios_xe_agent.py\<close>.\<close>

definition load_supported_commands :: "source \<Rightarrow> pyval loaded" where
  "load_supported_commands src =
     (case src of
        Missing \<Rightarrow>
          LoadFailed (''Supported commands file '' @ sq ''ios_xe_commands.json'' @ '' not found.'')
      | Unreadable e \<Rightarrow> LoadFailed (''Error loading supported commands: '' @ str_exn e)
      | Parsed data \<Rightarrow>
          (case py_iter data of
             Inl e \<Rightarrow> LoadFailed (''Error loading supported commands: '' @ str_exn e)
           | Inr entries \<Rightarrow>
               (case collect (\<lambda>entry. subscript_key entry ''command'') entries of
                  Inl e \<Rightarrow> LoadFailed (''Error loading supported commands: '' @ str_exn e)
                | Inr command_list \<Rightarrow> Loaded command_list)))"

section \<open>The fuzzy resolvers\<close>

text \<open>The catalog as strings, when every field is one.\<close>

fun as_str :: "pyval \<Rightarrow> string option" where
  "as_str (PStr s) = Some s"
| "as_str v = None"

fun str_list :: "pyval list \<Rightarrow> string list option" where
  "str_list [] = Some []"
| "str_list (v # vs) =
     (case as_str v of None \<Rightarrow> None
      | Some s \<Rightarrow> (case str_list vs of None \<Rightarrow> None | Some ss \<Rightarrow> Some (s # ss)))"

fun str_catalog :: "(pyval \<times> pyval) list \<Rightarrow> (string \<times> string) list option" where
  "str_catalog [] = Some []"
| "str_catalog ((u, n) # es) =
     (case (as_str u, as_str n) of
        (Some u', Some n') \<Rightarrow>
          (case str_catalog es of None \<Rightarrow> None | Some cat \<Rightarrow> Some ((u', n') # cat))
      | _ \<Rightarrow> None)"

definition supported_url :: "string \<Rightarrow> string \<Rightarrow> pyval" where
  "supported_url closest_url closest_name =
     PDict [(''status'', PStr ''supported''), (''closest_url'', PStr closest_url),
            (''closest_name'', PStr closest_name)]"

definition unsupported_url :: "string \<Rightarrow> pyval" where
  "unsupported_url api_url =
     PDict [(''status'', PStr ''unsupported''),
            (''message'', PStr (''The input '' @ sq api_url
               @ '' is not supported. Please check the available URLs or Names.''))]"

text \<open>
  The body of \<^verbatim>\<open>check_url_support\<close> after the load test, on a catalog of strings:
  the two calls of \<^verbatim>\<open>get_close_matches\<close>, then the \<^verbatim>\<open>if / elif / else\<close>. The
  subscript \<^verbatim>\<open>[0]\<close> on the filtered list raises IndexError when that list is empty.
\<close>

definition check_url_support_matching :: "(string \<times> string) list \<Rightarrow> string \<Rightarrow> pyval outcome" where
  "check_url_support_matching url_list api_url =
     (let urls = map fst url_list;
          names = map snd url_list;
          close_url_matches = get_close_matches api_url urls;
          close_name_matches = get_close_matches api_url names
      in case close_url_matches of
           closest_url # _ \<Rightarrow>
             (case [snd entry. entry \<leftarrow> url_list, fst entry = closest_url] of
                [] \<Rightarrow> Raises (IndexError ''list index out of range'')
              | matching_name # _ \<Rightarrow> Returns (supported_url closest_url matching_name))
         | [] \<Rightarrow>
             (case close_name_matches of
                closest_name # _ \<Rightarrow>
                  (case [fst entry. entry \<leftarrow> url_list, snd entry = closest_name] of
                     [] \<Rightarrow> Raises (IndexError ''list index out of range'')
                   | closest_url # _ \<Rightarrow> Returns (supported_url closest_url closest_name))
              | [] \<Rightarrow> Returns (unsupported_url api_url)))"

text \<open>
  \<^verbatim>\<open>check_url_support(api_url)\<close>, given the default file name and the state of that file.
  The test \<^verbatim>\<open>"error" in url_list\<close> is true for the error dictionary (it has that key)
  and false for a list of tuples (no tuple equals a string).
\<close>

definition check_url_support :: "string \<Rightarrow> source \<Rightarrow> string \<Rightarrow> pyval outcome" where
  "check_url_support file_path src api_url =
     (case load_urls file_path src of
        LoadFailed msg \<Rightarrow> Returns (error_dict msg)
      | Loaded url_list \<Rightarrow>
          (case str_catalog url_list of
             None \<Rightarrow> Unmodelled
           | Some cat \<Rightarrow> check_url_support_matching cat api_url))"

definition supported_command :: "string \<Rightarrow> pyval" where
  "supported_command closest_command =
     PDict [(''status'', PStr ''supported''), (''closest_command'', PStr closest_command)]"

definition unsupported_command :: "string \<Rightarrow> pyval" where
  "unsupported_command command =
     PDict [(''status'', PStr ''unsupported''),
            (''message'', PStr (''The command '' @ sq command
               @ '' is not supported. Please check the available commands.''))]"

text \<open>
  \<^verbatim>\<open>check_command_support(command)\<close>. Here the loaded list holds the command values
  themselves, so \<^verbatim>\<open>"error" in command_list\<close> is true for the error dictionary and also
  for a list with an element equal to the string \<^verbatim>\<open>"error"\<close>; in both cases
  \<open>command_list\<close> itself is returned.
\<close>

definition check_command_support :: "source \<Rightarrow> string \<Rightarrow> pyval outcome" where
  "check_command_support src command =
     (case load_supported_commands src of
        LoadFailed msg \<Rightarrow> Returns (error_dict msg)
      | Loaded command_list \<Rightarrow>
          if PStr ''error'' \<in> set command_list then Returns (PList command_list)
          else (case str_list command_list of
                  None \<Rightarrow> Unmodelled
                | Some cmds \<Rightarrow>
                    (case get_close_matches command cmds of
                       closest_command # _ \<Rightarrow> Returns (supported_command closest_command)
                     | [] \<Rightarrow> Returns (unsupported_command command))))"

section \<open>The ACI and ISE tools\<close>

text \<open>
  The world of the ACI agent: the state of \<^verbatim>\<open>aci_urls.json\<close>, what the controller
  answers, and the HTTP requests attempted so far. \<open>login_resp\<close> is the outcome of
  \<^verbatim>\<open>ACIController.get_token\<close> (\<open>None\<close>: the login went through); \<open>get_resp\<close> and
  \<open>post_resp\<close> are the outcomes of \<^verbatim>\<open>get_api\<close> and \<^verbatim>\<open>post_api\<close>, the parsed
  body or the exception raised by \<^verbatim>\<open>requests\<close>, \<^verbatim>\<open>raise_for_status\<close> or
  \<^verbatim>\<open>response.json\<close>. Output written by \<^verbatim>\<open>print\<close> and \<^verbatim>\<open>logging\<close> is not
  part of the world.
\<close>

datatype request = Login | Get string | Post pyval pyval

record aci_world =
  urls_file :: source
  login_resp :: "pyexn option"
  get_resp :: "string \<Rightarrow> pyexn + pyval"
  post_resp :: "pyval \<Rightarrow> pyval \<Rightarrow> pyexn + pyval"
  requests :: "request list"

definition sent :: "request \<Rightarrow> aci_world \<Rightarrow> aci_world" where
  "sent r w = w\<lparr>requests := requests w @ [r]\<rparr>"

text \<open>
  \<^verbatim>\<open>check_supported_url_tool\<close> of \<^verbatim>\<open>aci_agent.py\<close> and of \<^verbatim>\<open>ise_agent.py\<close>; the
  two differ in the catalog file and in the tool named under \<^verbatim>\<open>"next_tool"\<close>. On a
  supported result the tool builds a new dictionary with a message and an
  \<^verbatim>\<open>"action"\<close>; otherwise it returns \<open>result\<close>. It calls no other tool.
\<close>

definition chained_url :: "string \<Rightarrow> string \<Rightarrow> string \<Rightarrow> pyval" where
  "chained_url next_tool closest_url closest_name =
     PDict [(''status'', PStr ''supported''),
            (''message'', PStr (''The closest supported API URL is '' @ sq closest_url
               @ '' ('' @ closest_name @ '').'')),
            (''action'', PDict [(''next_tool'', PStr next_tool), (''input'', PStr closest_url)])]"

definition no_get_attribute :: "pyval \<Rightarrow> pyexn" where
  "no_get_attribute v =
     AttributeError (sq (type_name v) @ '' object has no attribute '' @ sq ''get'')"

definition url_tool_body :: "string \<Rightarrow> pyval outcome \<Rightarrow> pyval outcome" where
  "url_tool_body next_tool res =
     (case res of
        Raises e \<Rightarrow> Raises e
      | Unmodelled \<Rightarrow> Unmodelled
      | Returns result \<Rightarrow>
          (case result of
             PDict kvs \<Rightarrow>
               if dict_get kvs ''status'' = PStr ''supported'' then
                 (case subscript_key result ''closest_url'' of
                    Inl e \<Rightarrow> Raises e
                  | Inr closest_url \<Rightarrow>
                      (case subscript_key result ''closest_name'' of
                         Inl e \<Rightarrow> Raises e
                       | Inr closest_name \<Rightarrow>
                           (case (as_str closest_url, as_str closest_name) of
                              (Some u, Some n) \<Rightarrow> Returns (chained_url next_tool u n)
                            | _ \<Rightarrow> Unmodelled)))
               else Returns result
           | _ \<Rightarrow> Raises (no_get_attribute result)))"

definition check_supported_url_tool :: "string \<Rightarrow> aci_world \<Rightarrow> pyval outcome \<times> aci_world" where
  "check_supported_url_tool api_url w =
     (url_tool_body ''get_aci_data_tool'' (check_url_support ''aci_urls.json'' (urls_file w) api_url), w)"

definition ise_check_supported_url_tool :: "string \<Rightarrow> source \<Rightarrow> pyval outcome" where
  "ise_check_supported_url_tool api_url ise_urls_file =
     url_tool_body ''get_ise_data_tool'' (check_url_support ''ise_urls.json'' ise_urls_file api_url)"

text \<open>
  \<^verbatim>\<open>process_agent_response(response)\<close> of \<^verbatim>\<open>aci_agent.py\<close>. No function in the
  sources calls it. For a response with an \<^verbatim>\<open>"action"\<close> that has a
  \<^verbatim>\<open>"next_tool"\<close> it reads the tool name and input and then calls
  \<^verbatim>\<open>agent_executor.invoke\<close>; the module defines no \<^verbatim>\<open>agent_executor\<close>, so looking
  up that name raises. \<open>key_in\<close> is the test \<^verbatim>\<open>key in container\<close> for a string key.
\<close>

fun key_in :: "string \<Rightarrow> pyval \<Rightarrow> pyexn + bool" where
  "key_in key (PDict kvs) = Inr (key \<in> set (map fst kvs))"
| "key_in key (PList xs) = Inr (PStr key \<in> set xs)"
| "key_in key (PTuple xs) = Inr (PStr key \<in> set xs)"
| "key_in key (PStr s) = Inr (str_in key s)"
| "key_in key v = Inl (TypeError (''argument of type '' @ sq (type_name v) @ '' is not iterable''))"

definition process_agent_response :: "pyval \<Rightarrow> pyval outcome" where
  "process_agent_response response =
     (if \<not> truthy response then Returns response
      else case response of
        PDict kvs \<Rightarrow>
          if dict_get kvs ''status'' = PStr ''supported'' then
            (case key_in ''next_tool'' (dict_get_default kvs ''action'' (PDict [])) of
               Inl e \<Rightarrow> Raises e
             | Inr False \<Rightarrow> Returns response
             | Inr True \<Rightarrow>
                 (case subscript_key response ''action'' of
                    Inl e \<Rightarrow> Raises e
                  | Inr action \<Rightarrow>
                      (case subscript_key action ''next_tool'' of
                         Inl e \<Rightarrow> Raises e
                       | Inr next_tool \<Rightarrow>
                           (case subscript_key action ''input'' of
                              Inl e \<Rightarrow> Raises e
                            | Inr tool_input \<Rightarrow>
                                Raises (NameError (''name '' @ sq ''agent_executor''
                                  @ '' is not defined''))))))
          else Returns response
      | _ \<Rightarrow> Raises (no_get_attribute response))"

text \<open>
  \<^verbatim>\<open>get_aci_data_tool\<close>: build the controller (which logs in), then \<^verbatim>\<open>get_api\<close>. An
  \<^verbatim>\<open>HTTPError\<close> and any other exception are turned into error dictionaries with
  different prefixes.
\<close>

definition fetch_error :: "pyexn \<Rightarrow> pyval" where
  "fetch_error e =
     (case e of
        HTTPError m \<Rightarrow> error_dict (''Failed to fetch data from ACI: '' @ m)
      | _ \<Rightarrow> error_dict (''An unexpected error occurred: '' @ str_exn e))"

definition get_aci_data_tool :: "string \<Rightarrow> aci_world \<Rightarrow> pyval \<times> aci_world" where
  "get_aci_data_tool api_url w =
     (let w1 = sent Login w in
      case login_resp w of
        Some e \<Rightarrow> (fetch_error e, w1)
      | None \<Rightarrow>
          (let w2 = sent (Get api_url) w1 in
           case get_resp w api_url of
             Inl e \<Rightarrow> (fetch_error e, w2)
           | Inr data \<Rightarrow> (data, w2)))"

text \<open>
  \<^verbatim>\<open>create_aci_data_tool(input)\<close>. \<open>json_loads\<close> stands for the library function
  \<^verbatim>\<open>json.loads\<close>: the parsed value, or the exception it raises. Every exception inside
  the \<^verbatim>\<open>try\<close> block becomes the same kind of error dictionary.
\<close>

definition unexpected_error :: "pyexn \<Rightarrow> pyval" where
  "unexpected_error e = error_dict (''An unexpected error occurred: '' @ str_exn e)"

fun is_dict :: "pyval \<Rightarrow> bool" where
  "is_dict (PDict kvs) = True"
| "is_dict v = False"

definition create_aci_data_tool ::
    "(string \<Rightarrow> pyexn + pyval) \<Rightarrow> string \<Rightarrow> aci_world \<Rightarrow> pyval \<times> aci_world" where
  "create_aci_data_tool json_loads input w =
     (case json_loads input of
        Inl e \<Rightarrow> (unexpected_error e, w)
      | Inr data \<Rightarrow>
          (case data of
             PDict kvs \<Rightarrow>
               (let api_url = dict_get kvs ''api_url'';
                    payload = dict_get kvs ''payload''
                in if \<not> truthy api_url \<or> \<not> truthy payload then
                     (unexpected_error
                        (ValueError (''Both '' @ sq ''api_url'' @ '' and '' @ sq ''payload''
                           @ '' must be provided.'')), w)
                   else if \<not> is_dict payload then
                     (unexpected_error (ValueError ''Payload must be a dictionary.''), w)
                   else
                     (let w1 = sent Login w in
                      case login_resp w of
                        Some e \<Rightarrow> (unexpected_error e, w1)
                      | None \<Rightarrow>
                          (let w2 = sent (Post api_url payload) w1 in
                           case post_resp w api_url payload of
                             Inl e \<Rightarrow> (unexpected_error e, w2)
                           | Inr response \<Rightarrow> (response, w2))))
           | _ \<Rightarrow> (unexpected_error (no_get_attribute data), w)))"

section \<open>The IOS XE device operations and tools\<close>

text \<open>
  The world of the IOS XE agent: the state of \<^verbatim>\<open>ios_xe_commands.json\<close>, what each call
  into the device library does (\<open>None\<close> or \<open>Inr\<close>: it returns; otherwise the exception
  it raises), whether the connection is open, and the calls made so far.
  \<open>testbed_resp\<close> covers \<^verbatim>\<open>loader.load('testbed.yaml')\<close> together with the lookup
  \<^verbatim>\<open>testbed.devices['Cat8000V']\<close>; \<open>get_parser_resp\<close> tells whether
  \<^verbatim>\<open>get_parser\<close> returned a parser (\<open>True\<close>) or \<^verbatim>\<open>None\<close> (\<open>False\<close>).
\<close>

datatype device_call =
    LoadTestbed | Connect | GetParser string | Parse string | Configure string
  | Execute string | Disconnect

record device_world =
  commands_file :: source
  testbed_resp :: "pyexn option"
  connect_resp :: "pyexn option"
  get_parser_resp :: "string \<Rightarrow> pyexn + bool"
  parse_resp :: "string \<Rightarrow> pyexn + pyval"
  configure_resp :: "string \<Rightarrow> pyexn option"
  execute_resp :: "string \<Rightarrow> pyexn + pyval"
  disconnect_resp :: "pyexn option"
  connected :: bool
  device_log :: "device_call list"

definition called :: "device_call \<Rightarrow> device_world \<Rightarrow> device_world" where
  "called c w = w\<lparr>device_log := device_log w @ [c]\<rparr>"

definition disallowed_modifiers :: "string list" where
  "disallowed_modifiers = [''|'', ''include'', ''exclude'', ''begin'', ''redirect'', ''>'', ''<'']"

definition modifier_error :: "string \<Rightarrow> string \<Rightarrow> pyval" where
  "modifier_error command modifier =
     error_dict (''Command '' @ sq command @ '' contains disallowed modifier '' @ sq modifier
       @ ''. Modifiers are not allowed.'')"

definition device_error :: "pyexn \<Rightarrow> pyval" where
  "device_error e = error_dict (str_exn e)"

text \<open>
  The steps shared by the four operations: obtain the device, then \<^verbatim>\<open>device.connect()\<close>.
  The result is the exception raised, if any, and the world after the calls.
\<close>

definition open_device :: "device_world \<Rightarrow> pyexn option \<times> device_world" where
  "open_device w =
     (let w1 = called LoadTestbed w in
      case testbed_resp w of
        Some e \<Rightarrow> (Some e, w1)
      | None \<Rightarrow>
          (let w2 = called Connect w1 in
           case connect_resp w of
             Some e \<Rightarrow> (Some e, w2)
           | None \<Rightarrow> (None, w2\<lparr>connected := True\<rparr>)))"

text \<open>\<^verbatim>\<open>device.disconnect()\<close> followed by \<^verbatim>\<open>return value\<close>.\<close>

definition close_device :: "pyval \<Rightarrow> device_world \<Rightarrow> pyval \<times> device_world" where
  "close_device v w =
     (let w1 = called Disconnect w in
      case disconnect_resp w of
        Some e \<Rightarrow> (device_error e, w1)
      | None \<Rightarrow> (v, w1\<lparr>connected := False\<rparr>))"

definition run_show_command :: "string \<Rightarrow> device_world \<Rightarrow> pyval \<times> device_world" where
  "run_show_command command w =
     (case find (\<lambda>modifier. str_in modifier command) disallowed_modifiers of
        Some modifier \<Rightarrow> (modifier_error command modifier, w)
      | None \<Rightarrow>
          (case open_device w of
             (Some e, w2) \<Rightarrow> (device_error e, w2)
           | (None, w2) \<Rightarrow>
               (let w3 = called (GetParser command) w2 in
                case get_parser_resp w command of
                  Inl e \<Rightarrow> (device_error e, w3)
                | Inr False \<Rightarrow>
                    (error_dict (''No parser available for the command: '' @ command), w3)
                | Inr True \<Rightarrow>
                    (let w4 = called (Parse command) w3 in
                     case parse_resp w command of
                       Inl e \<Rightarrow> (device_error e, w4)
                     | Inr parsed_output \<Rightarrow> close_device parsed_output w4))))"

definition apply_device_configuration :: "string \<Rightarrow> device_world \<Rightarrow> pyval \<times> device_world" where
  "apply_device_configuration config_commands w =
     (case open_device w of
        (Some e, w2) \<Rightarrow> (device_error e, w2)
      | (None, w2) \<Rightarrow>
          (let w3 = called (Configure config_commands) w2 in
           case configure_resp w config_commands of
             Some e \<Rightarrow> (device_error e, w3)
           | None \<Rightarrow>
               close_device
                 (PDict [(''status'', PStr ''success''),
                         (''message'', PStr ''Configuration applied successfully.'')]) w3))"

definition execute_on_device :: "string \<Rightarrow> device_world \<Rightarrow> pyval \<times> device_world" where
  "execute_on_device command w =
     (case open_device w of
        (Some e, w2) \<Rightarrow> (device_error e, w2)
      | (None, w2) \<Rightarrow>
          (let w3 = called (Execute command) w2 in
           case execute_resp w command of
             Inl e \<Rightarrow> (device_error e, w3)
           | Inr learned \<Rightarrow> close_device learned w3))"

definition execute_show_run :: "device_world \<Rightarrow> pyval \<times> device_world" where
  "execute_show_run w = execute_on_device ''show run brief'' w"

definition execute_show_logging :: "device_world \<Rightarrow> pyval \<times> device_world" where
  "execute_show_logging w = execute_on_device ''show logging last 250'' w"

text \<open>
  \<^verbatim>\<open>check_supported_command_tool\<close>: like the URL tools, it returns a dictionary naming
  \<^verbatim>\<open>run_show_command_tool\<close> as the next tool, or \<open>result\<close> itself. When
  \<^verbatim>\<open>check_command_support\<close> has returned a list, \<^verbatim>\<open>result.get\<close> raises.
\<close>

definition chained_command :: "string \<Rightarrow> pyval" where
  "chained_command closest_command =
     PDict [(''status'', PStr ''supported''),
            (''message'', PStr (''The closest supported command is '' @ sq closest_command)),
            (''action'', PDict [(''next_tool'', PStr ''run_show_command_tool''),
                                (''input'', PStr closest_command)])]"

definition check_supported_command_tool ::
    "string \<Rightarrow> device_world \<Rightarrow> pyval outcome \<times> device_world" where
  "check_supported_command_tool command w =
     ((case check_command_support (commands_file w) command of
         Raises e \<Rightarrow> Raises e
       | Unmodelled \<Rightarrow> Unmodelled
       | Returns result \<Rightarrow>
           (case result of
              PDict kvs \<Rightarrow>
                if dict_get kvs ''status'' = PStr ''supported'' then
                  (case subscript_key result ''closest_command'' of
                     Inl e \<Rightarrow> Raises e
                   | Inr closest_command \<Rightarrow>
                       (case as_str closest_command of
                          Some c \<Rightarrow> Returns (chained_command c)
                        | None \<Rightarrow> Unmodelled))
                else Returns result
            | _ \<Rightarrow> Raises (no_get_attribute result))), w)"

section \<open>Facts about difflib\<close>

text \<open>
  \<^verbatim>\<open>quick_ratio\<close> counts the elements the two sequences have in common, as
  multisets.
\<close>

lemma quick_loop_inter:
  assumes "\<And>x. int (count R x) = max 0 (case avail x of Some n \<Rightarrow> n | None \<Rightarrow> int (count_list b x))"
  shows "quick_loop b avail a matches = matches + size (mset a \<inter># R)"
  using assms
proof (induction a arbitrary: avail matches R)
  case Nil
  then show ?case by simp
next
  case (Cons elt rest)
  define numb where "numb = (case avail elt of Some n \<Rightarrow> n | None \<Rightarrow> int (count_list b elt))"
  have step: "quick_loop b avail (elt # rest) matches
      = quick_loop b (avail(elt \<mapsto> numb - 1)) rest (if numb > 0 then matches + 1 else matches)"
    by (simp add: numb_def Let_def)
  from Cons.prems[of elt] have c: "int (count R elt) = max 0 numb" by (simp add: numb_def)
  show ?case
  proof (cases "numb > 0")
    case True
    with c have mem: "elt \<in># R" by (simp add: count_greater_zero_iff[symmetric] del: count_greater_zero_iff)
    have inv: "int (count (R - {#elt#}) x)
        = max 0 (case (avail(elt \<mapsto> numb - 1)) x of Some n \<Rightarrow> n | None \<Rightarrow> int (count_list b x))" for x
    proof (cases "x = elt")
      case True
      with c \<open>numb > 0\<close> show ?thesis by simp
    next
      case False
      with Cons.prems[of x] show ?thesis by simp
    qed
    from Cons.IH[of "R - {#elt#}" "avail(elt \<mapsto> numb - 1)" "matches + 1", OF inv]
    have "quick_loop b (avail(elt \<mapsto> numb - 1)) rest (matches + 1)
        = matches + 1 + size (mset rest \<inter># (R - {#elt#}))" .
    moreover have "mset (elt # rest) \<inter># R = add_mset elt (mset rest \<inter># (R - {#elt#}))"
      using mem by (simp add: inter_add_left2)
    ultimately show ?thesis using step True by simp
  next
    case False
    with c have nmem: "elt \<notin># R" by (simp add: not_in_iff)
    have inv: "int (count R x)
        = max 0 (case (avail(elt \<mapsto> numb - 1)) x of Some n \<Rightarrow> n | None \<Rightarrow> int (count_list b x))" for x
    proof (cases "x = elt")
      case True
      with c False show ?thesis by simp
    next
      case False
      with Cons.prems[of x] show ?thesis by simp
    qed
    from Cons.IH[of R "avail(elt \<mapsto> numb - 1)" matches, OF inv]
    have "quick_loop b (avail(elt \<mapsto> numb - 1)) rest matches = matches + size (mset rest \<inter># R)" .
    moreover have "mset (elt # rest) \<inter># R = mset rest \<inter># R"
      using nmem by (simp add: inter_add_left1)
    ultimately show ?thesis using step False by simp
  qed
qed

lemma quick_matches: "quick_loop b Map.empty a 0 = size (mset a \<inter># mset b)"
  using quick_loop_inter[where R = "mset b" and avail = Map.empty and b = b and a = a
      and matches = 0]
  by (simp add: count_mset)

lemma inter_size_le_min: "size (mset a \<inter># mset b) \<le> min (length a) (length b)"
proof -
  have "size (mset a \<inter># mset b) \<le> size (mset a)"
    by (rule size_mset_mono) simp
  moreover have "size (mset a \<inter># mset b) \<le> size (mset b)"
    by (rule size_mset_mono) simp
  ultimately show ?thesis by simp
qed

lemma calculate_ratio_mono: "m \<le> m' \<Longrightarrow> calculate_ratio m n \<le> calculate_ratio m' n"
  by (simp add: calculate_ratio_def divide_right_mono)

lemma quick_le_real_quick: "quick_ratio a b \<le> real_quick_ratio a b"
  unfolding quick_ratio_def real_quick_ratio_def quick_matches
  by (rule calculate_ratio_mono) (rule inter_size_le_min)


text \<open>
  The matching blocks found inside a window are disjoint equal segments of \<open>a\<close> and
  \<open>b\<close>, so their total size is at most what the two windows have in common as
  multisets. Hence \<^verbatim>\<open>ratio\<close> never exceeds \<^verbatim>\<open>quick_ratio\<close>.
\<close>

definition seg :: "'a list \<Rightarrow> nat \<Rightarrow> nat \<Rightarrow> 'a list" where
  "seg xs lo hi = take (hi - lo) (drop lo xs)"

fun window_ok :: "'a list \<Rightarrow> 'a list \<Rightarrow> window \<Rightarrow> bool" where
  "window_ok a b (alo, ahi, blo, bhi) \<longleftrightarrow> alo \<le> ahi \<and> ahi \<le> length a \<and> blo \<le> bhi \<and> bhi \<le> length b"

fun common :: "'a list \<Rightarrow> 'a list \<Rightarrow> window \<Rightarrow> nat" where
  "common a b (alo, ahi, blo, bhi) = size (mset (seg a alo ahi) \<inter># mset (seg b blo bhi))"

definition matched :: "match list \<Rightarrow> nat" where
  "matched blocks = sum_list (map (\<lambda>(i, j, k). k) blocks)"

lemma seg_split: "lo \<le> mid \<Longrightarrow> mid \<le> hi \<Longrightarrow> seg xs lo hi = seg xs lo mid @ seg xs mid hi"
proof -
  assume h: "lo \<le> mid" "mid \<le> hi"
  then have "hi - lo = (mid - lo) + (hi - mid)" by simp
  then have "take (hi - lo) (drop lo xs)
      = take (mid - lo) (drop lo xs) @ take (hi - mid) (drop (mid - lo) (drop lo xs))"
    by (simp only: take_add)
  moreover from h have "drop (mid - lo) (drop lo xs) = drop mid xs" by simp
  ultimately show ?thesis by (simp add: seg_def)
qed

lemma seg_eq:
  assumes "i + k \<le> length a" "j + k \<le> length b" "\<forall>t<k. a ! (i + t) = b ! (j + t)"
  shows "seg a i (i + k) = seg b j (j + k)"
proof (rule nth_equalityI)
  from assms(1,2) show "length (seg a i (i + k)) = length (seg b j (j + k))"
    by (simp add: seg_def)
next
  fix t assume "t < length (seg a i (i + k))"
  with assms(1) have t: "t < k" by (simp add: seg_def)
  with assms show "seg a i (i + k) ! t = seg b j (j + k) ! t"
    by (simp add: seg_def)
qed

lemma inter_superadditive:
  "size (A1 \<inter># B1) + size M + size (A2 \<inter># B2) \<le> size ((A1 + M + A2) \<inter># (B1 + M + B2))"
proof -
  have "(A1 \<inter># B1) + M + (A2 \<inter># B2) \<subseteq># A1 + M + A2"
    by (intro mset_subset_eq_mono_add subset_mset.inf_le1 subset_mset.order_refl)
  moreover have "(A1 \<inter># B1) + M + (A2 \<inter># B2) \<subseteq># B1 + M + B2"
    by (intro mset_subset_eq_mono_add subset_mset.inf_le2 subset_mset.order_refl)
  ultimately have "(A1 \<inter># B1) + M + (A2 \<inter># B2) \<subseteq># (A1 + M + A2) \<inter># (B1 + M + B2)"
    by simp
  from size_mset_mono[OF this] show ?thesis by simp
qed

lemma common_split:
  assumes ok: "window_ok a b (alo, ahi, blo, bhi)"
    and b: "alo \<le> i" "i + k \<le> ahi" "blo \<le> j" "j + k \<le> bhi" "\<forall>t<k. a ! (i + t) = b ! (j + t)"
  shows "common a b (alo, i, blo, j) + k + common a b (i + k, ahi, j + k, bhi)
      \<le> common a b (alo, ahi, blo, bhi)"
proof -
  from ok b have len: "i + k \<le> length a" "j + k \<le> length b" by simp_all
  have sa: "seg a alo ahi = seg a alo i @ seg a i (i + k) @ seg a (i + k) ahi"
    using b seg_split[of alo i ahi a] seg_split[of i "i + k" ahi a] by simp
  have sb: "seg b blo bhi = seg b blo j @ seg b j (j + k) @ seg b (j + k) bhi"
    using b seg_split[of blo j bhi b] seg_split[of j "j + k" bhi b] by simp
  have m: "seg a i (i + k) = seg b j (j + k)"
    by (rule seg_eq[OF len b(5)])
  have k: "size (mset (seg b j (j + k))) = k"
    using len by (simp add: seg_def)
  from inter_superadditive[of "mset (seg a alo i)" "mset (seg b blo j)" "mset (seg b j (j + k))"
      "mset (seg a (i + k) ahi)" "mset (seg b (j + k) bhi)"]
  show ?thesis
    unfolding common.simps sa sb m k by (simp add: ac_simps k)
qed

lemma matching_blocks_loop_bound:
  "\<forall>w \<in> set queue. window_ok a b w \<Longrightarrow>
     matched (matching_blocks_loop a b queue blocks) \<le> matched blocks + sum_list (map (common a b) queue)"
proof (induction a b queue blocks rule: matching_blocks_loop.induct)
  case (1 a b matching_blocks)
  then show ?case by simp
next
  case (2 a b alo ahi blo bhi queue matching_blocks)
  obtain i j k where f: "find_longest_match a b alo ahi blo bhi = (i, j, k)"
    by (cases "find_longest_match a b alo ahi blo bhi")
  from "2.prems" have ok: "window_ok a b (alo, ahi, blo, bhi)" and rest: "\<forall>w \<in> set queue. window_ok a b w"
    by simp_all
  show ?case
  proof (cases "k = 0")
    case True
    with f have "matching_blocks_loop a b ((alo, ahi, blo, bhi) # queue) matching_blocks
        = matching_blocks_loop a b queue matching_blocks" by simp
    moreover from "2.IH"(2)[OF f[symmetric] refl _ rest] True
    have "matched (matching_blocks_loop a b queue matching_blocks)
        \<le> matched matching_blocks + sum_list (map (common a b) queue)" by simp
    ultimately show ?thesis by simp
  next
    case False
    note b = find_longest_match_bounds[OF f False]
    let ?right = "if i + k < ahi \<and> j + k < bhi then [(i + k, ahi, j + k, bhi)] else []"
    let ?left = "if alo < i \<and> blo < j then [(alo, i, blo, j)] else []"
    have step: "matching_blocks_loop a b ((alo, ahi, blo, bhi) # queue) matching_blocks
        = matching_blocks_loop a b (?right @ ?left @ queue) (matching_blocks @ [(i, j, k)])"
      using f False by simp
    have oks: "\<forall>w \<in> set (?right @ ?left @ queue). window_ok a b w"
      using ok rest b by auto
    from "2.IH"(1)[OF f[symmetric] refl False oks]
    have ih: "matched (matching_blocks_loop a b (?right @ ?left @ queue) (matching_blocks @ [(i, j, k)]))
        \<le> matched (matching_blocks @ [(i, j, k)]) + sum_list (map (common a b) (?right @ ?left @ queue))" .
    have "sum_list (map (common a b) ?right) \<le> common a b (i + k, ahi, j + k, bhi)"
      and "sum_list (map (common a b) ?left) \<le> common a b (alo, i, blo, j)"
      by simp_all
    then have "sum_list (map (common a b) (?right @ ?left @ queue)) + k
        \<le> common a b (alo, i, blo, j) + k + common a b (i + k, ahi, j + k, bhi)
            + sum_list (map (common a b) queue)"
      by (simp del: common.simps)
    also have "\<dots> \<le> common a b (alo, ahi, blo, bhi) + sum_list (map (common a b) queue)"
      using common_split[OF ok b] by simp
    finally have "sum_list (map (common a b) (?right @ ?left @ queue)) + k
        \<le> sum_list (map (common a b) ((alo, ahi, blo, bhi) # queue))" by simp
    moreover have "matched (matching_blocks @ [(i, j, k)]) = matched matching_blocks + k"
      by (simp add: matched_def)
    ultimately show ?thesis using ih step by (simp del: common.simps)
  qed
qed

lemma ratio_matches: "matched (get_matching_blocks a b) \<le> size (mset a \<inter># mset b)"
  using matching_blocks_loop_bound[of "[(0, length a, 0, length b)]" a b "[]"]
  by (simp add: get_matching_blocks_def matched_def seg_def)

lemma ratio_le_quick: "ratio a b \<le> quick_ratio a b"
  unfolding ratio_def quick_ratio_def quick_matches
  using ratio_matches[of a b] by (intro calculate_ratio_mono) (simp add: matched_def)

text \<open>
  So the three tests of \<^verbatim>\<open>get_close_matches\<close> amount to the last one: a possibility is
  \<open>close\<close> to the query when its \<^verbatim>\<open>ratio\<close> reaches the cutoff. \<open>best_close\<close> is
  the close possibility with the largest tuple \<open>(score, string)\<close>: no close possibility
  scores higher, and among those with the same score none is a greater string.
\<close>

definition close :: "'a list \<Rightarrow> 'a list \<Rightarrow> bool" where
  "close query x \<longleftrightarrow> cutoff \<le> ratio x query"

definition best_close :: "'a::linorder list \<Rightarrow> 'a list list \<Rightarrow> 'a list \<Rightarrow> bool" where
  "best_close query xs x \<longleftrightarrow>
     x \<in> set xs \<and> close query x
     \<and> (\<forall>y \<in> set xs. close query y \<longrightarrow>
           ratio y query < ratio x query \<or> (ratio y query = ratio x query \<and> y \<le> x))"

lemma passes_iff:
  "real_quick_ratio x word \<ge> cutoff \<and> quick_ratio x word \<ge> cutoff \<and> ratio x word \<ge> cutoff
     \<longleftrightarrow> close word x"
  using ratio_le_quick[where a = x and b = word] quick_le_real_quick[where a = x and b = word]
  by (auto simp: close_def)

lemma max_loop_mem: "max_loop m xs \<in> set (m # xs)"
  by (induction xs arbitrary: m) (auto split: if_splits)

lemma max_loop_ge: "y \<in> set (m # xs) \<Longrightarrow> y \<le> max_loop m xs"
proof (induction xs arbitrary: m y)
  case Nil
  then show ?case by simp
next
  case (Cons x xs)
  define m' where "m' = (if x > m then x else m)"
  have step: "max_loop m (x # xs) = max_loop m' xs" by (simp add: m'_def)
  have top: "m' \<le> max_loop m' xs" by (rule Cons.IH) simp
  from Cons.prems consider "y = m" | "y = x" | "y \<in> set xs" by auto
  then have "y \<le> max_loop m' xs"
  proof cases
    case 1
    then have "y \<le> m'" by (auto simp: m'_def)
    with top show ?thesis by simp
  next
    case 2
    then have "y \<le> m'" by (auto simp: m'_def)
    with top show ?thesis by simp
  next
    case 3
    then show ?thesis by (intro Cons.IH) simp
  qed
  with step show ?case by (simp only:)
qed

lemma nlargest1_empty: "nlargest1 xs = [] \<longleftrightarrow> xs = []"
  by (simp add: nlargest1_def split: list.splits)

lemma nlargest1_max:
  assumes "xs \<noteq> []"
  shows "\<exists>m. nlargest1 xs = [m] \<and> m \<in> set xs \<and> (\<forall>y \<in> set xs. y \<le> m)"
proof (cases xs)
  case Nil
  with assms show ?thesis by simp
next
  case (Cons x rest)
  have "max_loop x rest \<in> set xs" using max_loop_mem[of x rest] Cons by simp
  moreover have "\<forall>y \<in> set xs. y \<le> max_loop x rest"
    using max_loop_ge[of _ x rest] Cons by blast
  moreover have "nlargest1 xs = [max_loop x rest]" using Cons by (simp add: nlargest1_def)
  ultimately show ?thesis by blast
qed

lemma scored:
  "[(ratio x word, x). x \<leftarrow> possibilities,
      real_quick_ratio x word \<ge> cutoff \<and> quick_ratio x word \<ge> cutoff \<and> ratio x word \<ge> cutoff]
   = map (\<lambda>x. (ratio x word, x)) (filter (close word) possibilities)"
  by (induction possibilities) (simp_all add: passes_iff)

lemma get_close_matches_none:
  "\<not> (\<exists>x \<in> set possibilities. close word x) \<Longrightarrow> get_close_matches word possibilities = []"
proof -
  assume "\<not> (\<exists>x \<in> set possibilities. close word x)"
  then have "filter (close word) possibilities = []" by (simp add: filter_empty_conv)
  then show ?thesis by (simp add: get_close_matches_def scored nlargest1_def)
qed

lemma get_close_matches_best:
  assumes "\<exists>x \<in> set possibilities. close word x"
  shows "\<exists>x. get_close_matches word possibilities = [x] \<and> best_close word possibilities x"
proof -
  let ?scored = "map (\<lambda>x. (ratio x word, x)) (filter (close word) possibilities)"
  from assms have "?scored \<noteq> []" by (simp add: filter_empty_conv)
  from nlargest1_max[OF this] obtain m where
    m: "nlargest1 ?scored = [m]" "m \<in> set ?scored" "\<forall>y \<in> set ?scored. y \<le> m" by blast
  from m(2) obtain x where x: "m = (ratio x word, x)" "x \<in> set possibilities" "close word x"
    by auto
  have "ratio y word < ratio x word \<or> (ratio y word = ratio x word \<and> y \<le> x)"
    if "y \<in> set possibilities" "close word y" for y
  proof -
    from that have "(ratio y word, y) \<in> set ?scored" by auto
    with m(3) x(1) have "(ratio y word, y) \<le> (ratio x word, x)" by blast
    then show ?thesis by (auto simp: less_eq_prod_def)
  qed
  with x have "best_close word possibilities x" by (auto simp: best_close_def)
  moreover from m(1) x(1) have "get_close_matches word possibilities = [x]"
    by (simp add: get_close_matches_def scored)
  ultimately show ?thesis by blast
qed

section \<open>Facts about the loaders, the tools and the device operations\<close>

text \<open>
  The two results of a resolver that are not a resolution: the error dictionary of a
  failed load, and the \<^verbatim>\<open>"unsupported"\<close> dictionary.
\<close>

fun is_load_error :: "pyval \<Rightarrow> bool" where
  "is_load_error (PDict [(k, PStr msg)]) = (k = ''error'')"
| "is_load_error v = False"

fun is_unsupported :: "pyval \<Rightarrow> bool" where
  "is_unsupported (PDict [(k1, PStr s), (k2, PStr msg)]) =
     (k1 = ''status'' \<and> s = ''unsupported'' \<and> k2 = ''message'')"
| "is_unsupported v = False"

lemma unresolved_status:
  "is_unsupported r \<or> is_load_error r \<Longrightarrow>
     \<exists>kvs. r = PDict kvs \<and> dict_get kvs ''status'' \<noteq> PStr ''supported''"
  by (induction r rule: is_unsupported.induct) (auto simp: dict_get_def)

lemma url_tool_body_unresolved:
  assumes "is_unsupported r \<or> is_load_error r"
  shows "url_tool_body next_tool (Returns r) = Returns r"
proof -
  from unresolved_status[OF assms] obtain kvs where
    "r = PDict kvs" "dict_get kvs ''status'' \<noteq> PStr ''supported''" by blast
  then show ?thesis by (simp add: url_tool_body_def)
qed

lemma url_tool_body_supported:
  "url_tool_body next_tool (Returns (supported_url u n)) = Returns (chained_url next_tool u n)"
  by (simp add: url_tool_body_def supported_url_def dict_get_def)

lemma process_agent_response_chained:
  "process_agent_response (chained_url next_tool u n)
     = Raises (NameError (''name '' @ sq ''agent_executor'' @ '' is not defined''))"
  by (simp add: process_agent_response_def chained_url_def dict_get_def dict_get_default_def)

lemma command_tool_unresolved:
  assumes "check_command_support (commands_file w) command = Returns r"
    "is_unsupported r \<or> is_load_error r"
  shows "check_supported_command_tool command w = (Returns r, w)"
proof -
  from unresolved_status[OF assms(2)] obtain kvs where
    "r = PDict kvs" "dict_get kvs ''status'' \<noteq> PStr ''supported''" by blast
  with assms(1) show ?thesis by (simp add: check_supported_command_tool_def)
qed

text \<open>
  \<open>loadable v\<close> tells when the extraction in \<^verbatim>\<open>load_urls\<close> goes through on the
  parsed value \<open>v\<close>: a list whose entries are all objects with a \<^verbatim>\<open>URL\<close> key, and
  also the empty object and the empty string, over which the comprehension iterates zero
  times.
\<close>

fun has_url :: "pyval \<Rightarrow> bool" where
  "has_url (PDict kvs) = (map_of kvs ''URL'' \<noteq> None)"
| "has_url v = False"

fun loadable :: "pyval \<Rightarrow> bool" where
  "loadable (PList entries) = list_all has_url entries"
| "loadable (PTuple entries) = list_all has_url entries"
| "loadable (PStr s) = (s = [])"
| "loadable (PDict kvs) = (kvs = [])"
| "loadable v = False"

lemma url_entry_raises: "\<not> has_url v \<Longrightarrow> \<exists>e. url_entry v = Inl e"
  by (cases v) (auto split: option.splits)

lemma url_entry_returns: "has_url v \<Longrightarrow> \<exists>p. url_entry v = Inr p"
  by (cases v) (auto split: option.splits)

lemma collect_url_entry:
  "(\<exists>ps. collect url_entry entries = Inr ps) \<longleftrightarrow> list_all has_url entries"
proof (induction entries)
  case Nil
  then show ?case by simp
next
  case (Cons v vs)
  show ?case
  proof (cases "has_url v")
    case True
    with url_entry_returns obtain p where "url_entry v = Inr p" by blast
    with True Cons show ?thesis by (auto split: sum.splits)
  next
    case False
    with url_entry_raises obtain e where "url_entry v = Inl e" by blast
    with False show ?thesis by simp
  qed
qed

lemma collect_raises:
  "\<not> list_all has_url entries \<Longrightarrow> \<exists>e. collect url_entry entries = Inl e"
  using collect_url_entry[of entries] by (cases "collect url_entry entries") auto

lemma not_loadable_fails:
  assumes "\<not> loadable v"
  shows "\<exists>msg. load_urls file_path (Parsed v) = LoadFailed msg"
proof (cases "py_iter v")
  case (Inl e)
  then show ?thesis by (simp add: load_urls_def)
next
  case (Inr entries)
  have "\<not> list_all has_url entries \<or> (\<exists>e. entries \<noteq> [] \<and> (\<forall>x\<in>set entries. \<exists>s. x = PStr s))"
    using assms Inr by (cases v) auto
  then have "\<exists>e. collect url_entry entries = Inl e"
  proof
    assume "\<not> list_all has_url entries"
    then show ?thesis by (rule collect_raises)
  next
    assume "\<exists>e. entries \<noteq> [] \<and> (\<forall>x\<in>set entries. \<exists>s. x = PStr s)"
    then have "\<not> list_all has_url entries" by (cases entries) auto
    then show ?thesis by (rule collect_raises)
  qed
  with Inr show ?thesis by (auto simp: load_urls_def)
qed

lemma loadable_loads:
  assumes "loadable v"
  shows "\<exists>url_list. load_urls file_path (Parsed v) = Loaded url_list"
proof -
  obtain entries where i: "py_iter v = Inr entries" and a: "list_all has_url entries"
    using assms by (cases v) auto
  from a collect_url_entry[of entries] obtain ps where "collect url_entry entries = Inr ps" by blast
  with i show ?thesis by (simp add: load_urls_def)
qed

lemma load_failed_propagates:
  "load_urls file_path src = LoadFailed msg \<Longrightarrow>
     check_url_support file_path src api_url = Returns (error_dict msg)"
  by (simp add: check_url_support_def)

text \<open>
  The catalog file format in the words of the specification: an ordered sequence of
  records, each with a required \<^verbatim>\<open>URL\<close> string field and an optional \<^verbatim>\<open>Name\<close>
  string field.
\<close>

fun is_record :: "pyval \<Rightarrow> bool" where
  "is_record (PDict kvs) =
     ((case map_of kvs ''URL'' of Some (PStr u) \<Rightarrow> True | _ \<Rightarrow> False)
      \<and> (case map_of kvs ''Name'' of None \<Rightarrow> True | Some (PStr n) \<Rightarrow> True | _ \<Rightarrow> False))"
| "is_record v = False"

fun well_formed_catalog :: "pyval \<Rightarrow> bool" where
  "well_formed_catalog (PList entries) = list_all is_record entries"
| "well_formed_catalog v = False"

text \<open>\<open>str_in m s\<close> holds exactly when \<open>m\<close> occurs in \<open>s\<close>.\<close>

lemma starts_with_iff: "starts_with m s \<longleftrightarrow> (\<exists>q. s = m @ q)"
  by (induction m s rule: starts_with.induct) auto

lemma str_in_iff: "str_in m s \<longleftrightarrow> (\<exists>p q. s = p @ m @ q)"
proof (induction s)
  case Nil
  then show ?case by auto
next
  case (Cons c cs)
  show ?case
  proof
    assume "str_in m (c # cs)"
    then consider "starts_with m (c # cs)" | "str_in m cs" by auto
    then show "\<exists>p q. c # cs = p @ m @ q"
    proof cases
      case 1
      then obtain q where "c # cs = [] @ m @ q" by (auto simp: starts_with_iff)
      then show ?thesis by blast
    next
      case 2
      with Cons obtain p q where "cs = p @ m @ q" by blast
      then have "c # cs = (c # p) @ m @ q" by simp
      then show ?thesis by blast
    qed
  next
    assume "\<exists>p q. c # cs = p @ m @ q"
    then obtain p q where e: "c # cs = p @ m @ q" by blast
    show "str_in m (c # cs)"
    proof (cases p)
      case Nil
      with e have "starts_with m (c # cs)" by (auto simp: starts_with_iff)
      then show ?thesis by simp
    next
      case (Cons c' p')
      with e have "cs = p' @ m @ q" by simp
      with Cons.IH have "str_in m cs" by blast
      then show ?thesis by simp
    qed
  qed
qed

lemma find_modifier:
  assumes "modifier \<in> set disallowed_modifiers" "str_in modifier command"
  shows "\<exists>m. find (\<lambda>modifier. str_in modifier command) disallowed_modifiers = Some m
     \<and> m \<in> set disallowed_modifiers \<and> str_in m command"
proof (cases "find (\<lambda>modifier. str_in modifier command) disallowed_modifiers")
  case None
  with assms show ?thesis by (auto simp: find_None_iff)
next
  case (Some m)
  then show ?thesis by (auto simp: find_Some_iff)
qed

lemma open_device_log:
  "\<exists>rest. device_log (snd (open_device w)) = device_log w @ LoadTestbed # rest"
  by (auto simp: open_device_def called_def Let_def split: option.splits)

lemma close_device_log:
  "\<exists>rest. device_log (snd (close_device v w)) = device_log w @ rest"
  by (auto simp: close_device_def called_def Let_def split: option.splits)

lemma apply_device_configuration_log:
  "\<exists>rest. device_log (snd (apply_device_configuration config w)) = device_log w @ LoadTestbed # rest"
proof -
  obtain r w2 where o: "open_device w = (r, w2)" by (cases "open_device w")
  from open_device_log[of w] o obtain rest where
    l: "device_log w2 = device_log w @ LoadTestbed # rest" by auto
  show ?thesis
  proof (cases r)
    case (Some e)
    with o l show ?thesis by (simp add: apply_device_configuration_def)
  next
    case None
    show ?thesis
    proof (cases "configure_resp w config")
      case (Some e)
      with None o l show ?thesis
        by (simp add: apply_device_configuration_def called_def)
    next
      case cn: None
      let ?w3 = "called (Configure config) w2"
      from close_device_log[of _ ?w3] obtain rest' where
        "device_log (snd (close_device
            (PDict [(''status'', PStr ''success''),
                    (''message'', PStr ''Configuration applied successfully.'')]) ?w3))
           = device_log ?w3 @ rest'" by blast
      with None cn o l show ?thesis
        by (simp add: apply_device_configuration_def called_def)
    qed
  qed
qed

lemma apply_device_configuration_configures:
  assumes "testbed_resp w = None \<and> connect_resp w = None"
  shows "\<exists>rest. device_log (snd (apply_device_configuration command w))
     = device_log w @ [LoadTestbed, Connect, Configure command] @ rest"
proof -
  let ?w2 = "(called Connect (called LoadTestbed w))\<lparr>connected := True\<rparr>"
  let ?w3 = "called (Configure command) ?w2"
  from assms have o: "open_device w = (None, ?w2)"
    by (simp add: open_device_def)
  have l3: "device_log ?w3 = device_log w @ [LoadTestbed, Connect, Configure command]"
    by (simp add: called_def)
  show ?thesis
  proof (cases "configure_resp w command")
    case (Some e)
    with o l3 have "device_log (snd (apply_device_configuration command w))
        = device_log w @ [LoadTestbed, Connect, Configure command] @ []"
      by (simp add: apply_device_configuration_def)
    then show ?thesis by blast
  next
    case None
    from close_device_log[of _ ?w3] obtain rest where
      "device_log (snd (close_device
          (PDict [(''status'', PStr ''success''),
                  (''message'', PStr ''Configuration applied successfully.'')]) ?w3))
         = device_log ?w3 @ rest" by blast
    with None o l3 have "device_log (snd (apply_device_configuration command w))
        = device_log w @ [LoadTestbed, Connect, Configure command] @ rest"
      by (simp add: apply_device_configuration_def)
    then show ?thesis by blast
  qed
qed

text \<open>
  The three branches of \<^verbatim>\<open>check_url_support\<close> on a catalog of strings. The name paired
  with the closest URL is that of the first entry with this URL; the URL paired with the
  closest name is that of the first entry with this name.
\<close>

lemma first_name:
  "(case [snd entry. entry \<leftarrow> url_list, fst entry = u] of [] \<Rightarrow> None | n # _ \<Rightarrow> Some n)
     = map_of url_list u"
  by (induction url_list) auto

lemma first_url:
  "(case [fst entry. entry \<leftarrow> url_list, snd entry = n] of [] \<Rightarrow> None | u # _ \<Rightarrow> Some (u, n))
     = find (\<lambda>entry. snd entry = n) url_list"
  by (induction url_list) auto

lemma matching_url:
  assumes "\<exists>e \<in> set url_list. close api_url (fst e)"
  shows "\<exists>u n. check_url_support_matching url_list api_url = Returns (supported_url u n)
     \<and> best_close api_url (map fst url_list) u \<and> map_of url_list u = Some n"
proof -
  from assms have "\<exists>x \<in> set (map fst url_list). close api_url x" by auto
  from get_close_matches_best[OF this] obtain u where
    u: "get_close_matches api_url (map fst url_list) = [u]" "best_close api_url (map fst url_list) u"
    by blast
  then have "u \<in> fst ` set url_list" by (auto simp: best_close_def)
  then obtain n where n: "map_of url_list u = Some n"
    by (cases "map_of url_list u") (auto simp: map_of_eq_None_iff)
  with first_name[where url_list = url_list and u = u] obtain rest where
    "[snd entry. entry \<leftarrow> url_list, fst entry = u] = n # rest"
    by (auto split: list.splits)
  with u(1) have "check_url_support_matching url_list api_url = Returns (supported_url u n)"
    by (simp add: check_url_support_matching_def)
  with u(2) n show ?thesis by blast
qed

lemma matching_name:
  assumes "\<not> (\<exists>e \<in> set url_list. close api_url (fst e))" "\<exists>e \<in> set url_list. close api_url (snd e)"
  shows "\<exists>u n. check_url_support_matching url_list api_url = Returns (supported_url u n)
     \<and> best_close api_url (map snd url_list) n \<and> find (\<lambda>entry. snd entry = n) url_list = Some (u, n)"
proof -
  from assms(1) have "\<not> (\<exists>x \<in> set (map fst url_list). close api_url x)" by auto
  from get_close_matches_none[OF this]
  have nou: "get_close_matches api_url (map fst url_list) = []" .
  from assms(2) have "\<exists>x \<in> set (map snd url_list). close api_url x" by auto
  from get_close_matches_best[OF this] obtain n where
    n: "get_close_matches api_url (map snd url_list) = [n]" "best_close api_url (map snd url_list) n"
    by blast
  then have "n \<in> snd ` set url_list" by (auto simp: best_close_def)
  then have "find (\<lambda>entry. snd entry = n) url_list \<noteq> None"
    by (auto simp: find_None_iff)
  with first_url[where url_list = url_list and n = n] obtain u rest where
    "[fst entry. entry \<leftarrow> url_list, snd entry = n] = u # rest"
    "find (\<lambda>entry. snd entry = n) url_list = Some (u, n)"
    by (auto split: list.splits)
  with nou n show ?thesis
    by (auto simp: check_url_support_matching_def)
qed

lemma matching_none:
  assumes "\<not> (\<exists>e \<in> set url_list. close api_url (fst e))" "\<not> (\<exists>e \<in> set url_list. close api_url (snd e))"
  shows "check_url_support_matching url_list api_url = Returns (unsupported_url api_url)"
proof -
  from assms(1) have "\<not> (\<exists>x \<in> set (map fst url_list). close api_url x)" by auto
  from get_close_matches_none[OF this]
  have nou: "get_close_matches api_url (map fst url_list) = []" .
  from assms(2) have "\<not> (\<exists>x \<in> set (map snd url_list). close api_url x)" by auto
  from get_close_matches_none[OF this]
  have "get_close_matches api_url (map snd url_list) = []" .
  with nou show ?thesis by (simp add: check_url_support_matching_def)
qed

section \<open>Example worlds\<close>

text \<open>
  A catalog with the one entry of the specification's example; an ACI world over it whose
  controller accepts the login and answers every request with an empty result set; a
  \<^verbatim>\<open>json.loads\<close> that knows three inputs; a device on which every call succeeds, and
  three variants of it: one with no parser for any command, one that rejects every
  configuration, one on which every executed command times out.
\<close>

definition leaf_catalog :: source where
  "leaf_catalog =
     Parsed (PList [PDict [(''URL'', PStr ''/api/node/class/topSystem.json''),
                           (''Name'', PStr ''Leaf Nodes'')]])"

definition apic :: aci_world where
  "apic = \<lparr>urls_file = leaf_catalog, login_resp = None,
     get_resp = (\<lambda>api_url. Inr (PDict [(''totalCount'', PStr ''0''), (''imdata'', PList [])])),
     post_resp = (\<lambda>api_url payload. Inr (PDict [(''totalCount'', PStr ''0''), (''imdata'', PList [])])),
     requests = []\<rparr>"

definition loads_example :: "string \<Rightarrow> pyexn + pyval" where
  "loads_example input =
     (if input = ''{\"api_url\": \"/api/mo/uni.json\", \"payload\": \"fvTenant\"}''
      then Inr (PDict [(''api_url'', PStr ''/api/mo/uni.json''), (''payload'', PStr ''fvTenant'')])
      else if input = ''{\"api_url\": \"/api/mo/uni.json\"}''
      then Inr (PDict [(''api_url'', PStr ''/api/mo/uni.json'')])
      else if input = ''{\"api_url\": \"/api/mo/uni.json\", \"payload\": {}}''
      then Inr (PDict [(''api_url'', PStr ''/api/mo/uni.json''), (''payload'', PDict [])])
      else Inl (OtherError ''Expecting value: line 1 column 1 (char 0)''))"

definition lab_device :: device_world where
  "lab_device = \<lparr>commands_file =
       Parsed (PList [PDict [(''command'', PStr ''show version'')],
                      PDict [(''command'', PStr ''show ip interface brief'')]]),
     testbed_resp = None, connect_resp = None,
     get_parser_resp = (\<lambda>command. Inr True),
     parse_resp = (\<lambda>command. Inr (PDict [(''version'', PDict [(''os'', PStr ''IOS-XE'')])])),
     configure_resp = (\<lambda>config. None),
     execute_resp = (\<lambda>command. Inr (PStr ''Building configuration...'')),
     disconnect_resp = None, connected = False, device_log = []\<rparr>"

definition no_parser_device :: device_world where
  "no_parser_device = lab_device\<lparr>get_parser_resp := (\<lambda>command. Inr False)\<rparr>"

definition rejecting_device :: device_world where
  "rejecting_device =
     lab_device\<lparr>configure_resp := (\<lambda>config. Some (OtherError ''Invalid input detected''))\<rparr>"

definition timeout_device :: device_world where
  "timeout_device = lab_device\<lparr>execute_resp := (\<lambda>command. Inl (OtherError ''Timeout occurred''))\<rparr>"

definition error_catalog :: source where
  "error_catalog = Parsed (PList [PDict [(''command'', PStr ''show version'')],
                                  PDict [(''command'', PStr ''error'')]])"

lemma leaf_nodes_supported:
  "check_url_support f leaf_catalog ''Leaf Nodes''
     = Returns (supported_url ''/api/node/class/topSystem.json'' ''Leaf Nodes'')"
  by code_simp

lemma apic_file: "urls_file apic = leaf_catalog"
  by (simp add: apic_def)

lemma aci_unsupported:
  "check_url_support f leaf_catalog ''show clock'' = Returns (unsupported_url ''show clock'')"
  by code_simp

lemma cmd_unsupported:
  "check_command_support (commands_file lab_device) ''traceroute'' = Returns (unsupported_command ''traceroute'')"
  by code_simp

lemma aci_load_error:
  "check_url_support ''aci_urls.json'' Missing query
     = Returns (PDict [(''error'', PStr ''URLs file 'aci_urls.json' not found.'')])"
  by (simp add: check_url_support_def load_urls_def error_dict_def sq_def)

lemma pipe_found:
  "find (\<lambda>modifier. str_in modifier ''show ip int brief | include up'') disallowed_modifiers
     = Some ''|''"
  by (simp add: disallowed_modifiers_def)

lemma leaf_loaded:
  "load_urls file_path leaf_catalog
     = Loaded [(PStr ''/api/node/class/topSystem.json'', PStr ''Leaf Nodes'')]"
  by (simp add: load_urls_def leaf_catalog_def dict_get_default_def)

lemma leaf_strings:
  "str_catalog [(PStr ''/api/node/class/topSystem.json'', PStr ''Leaf Nodes'')]
     = Some [(''/api/node/class/topSystem.json'', ''Leaf Nodes'')]"
  by simp

definition both_required :: pyval where
  "both_required = PDict [(''error'',
     PStr ''An unexpected error occurred: Both 'api_url' and 'payload' must be provided.'')]"

definition payload_not_dict :: pyval where
  "payload_not_dict = PDict [(''error'',
     PStr ''An unexpected error occurred: Payload must be a dictionary.'')]"

section \<open>The claims\<close>

subsection \<open>Resolution\<close>

text \<open>
  C1, as amended. For every query and every loaded catalog of (identifier, display name)
  string pairs, \<^verbatim>\<open>check_url_support\<close> scores the query against every identifier and,
  separately, against every display name. If some identifier scores at least 0.6, it
  returns the supported result for the best close identifier, paired with the name of the
  first entry that has this identifier; display names are then not considered. Otherwise,
  if some display name scores at least 0.6, it returns the supported result for the best
  close name, paired with the identifier of the first entry that has this name. Otherwise
  it returns the unsupported result. The best close candidate has the highest score, and
  among candidates with that score it is the greatest string in lexicographic order,
  wherever it stands in the catalog.
\<close>

theorem C1_best_close_match:
  assumes "load_urls file_path src = Loaded entries" and "str_catalog entries = Some url_list"
  shows "((\<exists>e \<in> set url_list. close api_url (fst e)) \<longrightarrow>
            (\<exists>u n. check_url_support file_path src api_url = Returns (supported_url u n)
               \<and> best_close api_url (map fst url_list) u \<and> map_of url_list u = Some n))
      \<and> (\<not> (\<exists>e \<in> set url_list. close api_url (fst e)) \<and> (\<exists>e \<in> set url_list. close api_url (snd e)) \<longrightarrow>
            (\<exists>u n. check_url_support file_path src api_url = Returns (supported_url u n)
               \<and> best_close api_url (map snd url_list) n
               \<and> find (\<lambda>entry. snd entry = n) url_list = Some (u, n)))
      \<and> (\<not> (\<exists>e \<in> set url_list. close api_url (fst e)) \<and> \<not> (\<exists>e \<in> set url_list. close api_url (snd e)) \<longrightarrow>
            check_url_support file_path src api_url = Returns (unsupported_url api_url))"
proof -
  from assms have "check_url_support file_path src api_url = check_url_support_matching url_list api_url"
    by (simp add: check_url_support_def)
  then show ?thesis
    using matching_url[of url_list api_url] matching_name[of url_list api_url]
      matching_none[of url_list api_url]
    by (simp only:) blast
qed

theorem C1_best_close_match_witness:
  "(\<exists>u n. check_url_support ''aci_urls.json'' leaf_catalog ''/api/node/class/topSystem.jsn''
              = Returns (supported_url u n)
          \<and> best_close ''/api/node/class/topSystem.jsn'' [''/api/node/class/topSystem.json''] u
          \<and> map_of [(''/api/node/class/topSystem.json'', ''Leaf Nodes'')] u = Some n)
   \<and> (\<exists>u n. check_url_support ''aci_urls.json'' leaf_catalog ''Leaf Node''
              = Returns (supported_url u n)
          \<and> best_close ''Leaf Node'' [''Leaf Nodes''] n
          \<and> find (\<lambda>entry. snd entry = n) [(''/api/node/class/topSystem.json'', ''Leaf Nodes'')]
              = Some (u, n))
   \<and> check_url_support ''aci_urls.json'' leaf_catalog ''show clock''
        = Returns (unsupported_url ''show clock'')"
proof -
  have u1: "close ''/api/node/class/topSystem.jsn'' ''/api/node/class/topSystem.json''"
    by code_simp
  have u2: "\<not> close ''Leaf Node'' ''/api/node/class/topSystem.json''"
    by code_simp
  have n2: "close ''Leaf Node'' ''Leaf Nodes''"
    by code_simp
  have u3: "\<not> close ''show clock'' ''/api/node/class/topSystem.json''"
    by code_simp
  have n3: "\<not> close ''show clock'' ''Leaf Nodes''"
    by code_simp
  note t = C1_best_close_match[where file_path = "''aci_urls.json''", OF leaf_loaded leaf_strings]
  from t[where api_url = "''/api/node/class/topSystem.jsn''"] t[where api_url = "''Leaf Node''"]
    t[where api_url = "''show clock''"] u1 u2 n2 u3 n3
  show ?thesis by simp
qed

text \<open>
  The claim as stated fails in its tie-break: the identifiers \<^verbatim>\<open>abx\<close> and \<^verbatim>\<open>aby\<close>
  both score 2/3 against the query \<^verbatim>\<open>abc\<close>, and the second entry of the catalog is
  returned, not the first.
\<close>

theorem C1_counterexample:
  "check_url_support ''aci_urls.json''
     (Parsed (PList [PDict [(''URL'', PStr ''abx''), (''Name'', PStr ''first'')],
                     PDict [(''URL'', PStr ''aby''), (''Name'', PStr ''second'')]]))
     ''abc''
   = Returns (PDict [(''status'', PStr ''supported''), (''closest_url'', PStr ''aby''),
                     (''closest_name'', PStr ''second'')])
   \<and> ratio ''abx'' ''abc'' = 2 / 3 \<and> ratio ''aby'' ''abc'' = 2 / 3 \<and> cutoff \<le> 2 / 3"
  by code_simp

text \<open>
  C8. Given the single-entry catalog
  \<^verbatim>\<open>[("/api/node/class/topSystem.json", "Leaf Nodes")]\<close> and the query
  \<^verbatim>\<open>"Leaf Node"\<close>, \<^verbatim>\<open>check_url_support\<close> returns the supported result with identifier
  \<^verbatim>\<open>"/api/node/class/topSystem.json"\<close> and display name \<^verbatim>\<open>"Leaf Nodes"\<close>. The
  identifier itself scores 8/39 and is not a close match; the display name scores 18/19.
\<close>

theorem C8_leaf_node_resolves:
  "check_url_support ''aci_urls.json''
     (Parsed (PList [PDict [(''URL'', PStr ''/api/node/class/topSystem.json''),
                            (''Name'', PStr ''Leaf Nodes'')]]))
     ''Leaf Node''
   = Returns (PDict [(''status'', PStr ''supported''),
                     (''closest_url'', PStr ''/api/node/class/topSystem.json''),
                     (''closest_name'', PStr ''Leaf Nodes'')])
   \<and> load_urls ''aci_urls.json''
       (Parsed (PList [PDict [(''URL'', PStr ''/api/node/class/topSystem.json''),
                              (''Name'', PStr ''Leaf Nodes'')]]))
     = Loaded [(PStr ''/api/node/class/topSystem.json'', PStr ''Leaf Nodes'')]
   \<and> ratio ''/api/node/class/topSystem.json'' ''Leaf Node'' = 8 / 39
   \<and> ratio ''Leaf Nodes'' ''Leaf Node'' = 18 / 19"
  by code_simp

subsection \<open>Chaining\<close>

text \<open>
  C2, as amended. On every query that \<^verbatim>\<open>check_url_support\<close> resolves,
  \<^verbatim>\<open>check_supported_url_tool\<close> returns a new dictionary with status
  \<^verbatim>\<open>"supported"\<close>, a message, and an \<^verbatim>\<open>"action"\<close> that names the read tool
  (\<^verbatim>\<open>get_aci_data_tool\<close>, or \<^verbatim>\<open>get_ise_data_tool\<close> for ISE) as \<^verbatim>\<open>"next_tool"\<close>
  and the resolved identifier as its \<^verbatim>\<open>"input"\<close>; the world, and with it the list of
  requests sent, is unchanged: the read operation is named, not invoked.
\<close>

theorem C2_tool_returns_next_action:
  "(check_url_support ''aci_urls.json'' (urls_file w) api_url = Returns (supported_url u n) \<longrightarrow>
      check_supported_url_tool api_url w = (Returns (chained_url ''get_aci_data_tool'' u n), w))
   \<and> (check_url_support ''ise_urls.json'' src api_url = Returns (supported_url u n) \<longrightarrow>
      ise_check_supported_url_tool api_url src = Returns (chained_url ''get_ise_data_tool'' u n))"
  by (simp add: check_supported_url_tool_def ise_check_supported_url_tool_def
      url_tool_body_supported)

theorem C2_tool_returns_next_action_witness:
  "check_url_support ''aci_urls.json'' (urls_file apic) ''Leaf Nodes''
      = Returns (supported_url ''/api/node/class/topSystem.json'' ''Leaf Nodes'')
   \<and> check_supported_url_tool ''Leaf Nodes'' apic
      = (Returns (chained_url ''get_aci_data_tool'' ''/api/node/class/topSystem.json'' ''Leaf Nodes''),
         apic)
   \<and> check_url_support ''ise_urls.json'' leaf_catalog ''Leaf Nodes''
      = Returns (supported_url ''/api/node/class/topSystem.json'' ''Leaf Nodes'')
   \<and> ise_check_supported_url_tool ''Leaf Nodes'' leaf_catalog
      = Returns (chained_url ''get_ise_data_tool'' ''/api/node/class/topSystem.json'' ''Leaf Nodes'')"
  using C2_tool_returns_next_action[of apic "''Leaf Nodes''"
      "''/api/node/class/topSystem.json''" "''Leaf Nodes''" leaf_catalog]
  by (simp add: leaf_nodes_supported apic_file)

text \<open>
  The claim as stated fails: in the example world the query \<^verbatim>\<open>"Leaf Nodes"\<close> is
  resolved, yet the tool's result is not what the read operation returns for the
  resolved identifier, and the tool sends no request, where the read operation sends two.
\<close>

theorem C2_counterexample:
  "check_url_support ''aci_urls.json'' (urls_file apic) ''Leaf Nodes''
      = Returns (supported_url ''/api/node/class/topSystem.json'' ''Leaf Nodes'')
   \<and> fst (check_supported_url_tool ''Leaf Nodes'' apic)
      \<noteq> Returns (fst (get_aci_data_tool ''/api/node/class/topSystem.json'' apic))
   \<and> requests (snd (check_supported_url_tool ''Leaf Nodes'' apic)) = []
   \<and> requests (snd (get_aci_data_tool ''/api/node/class/topSystem.json'' apic))
      = [Login, Get ''/api/node/class/topSystem.json'']"
  by (simp add: check_supported_url_tool_def apic_file leaf_nodes_supported
      url_tool_body_supported chained_url_def get_aci_data_tool_def sent_def)
     (simp add: apic_def sent_def)

text \<open>
  C7. When the resolver returns the unsupported dictionary or a load error, the chaining
  tool returns exactly that result and leaves the world as it was (no request is sent, no
  device call is made, so nothing is chained); a second call on the resulting world
  returns the same again. This holds for the ACI tool, the ISE tool and the IOS XE
  command tool.
\<close>

theorem C7_unresolved_query_not_chained:
  "(check_url_support ''aci_urls.json'' (urls_file w) query = Returns r
      \<and> (is_unsupported r \<or> is_load_error r) \<longrightarrow>
        check_supported_url_tool query w = (Returns r, w)
        \<and> check_supported_url_tool query (snd (check_supported_url_tool query w)) = (Returns r, w))
   \<and> (check_url_support ''ise_urls.json'' src query = Returns r
      \<and> (is_unsupported r \<or> is_load_error r) \<longrightarrow>
        ise_check_supported_url_tool query src = Returns r)
   \<and> (check_command_support (commands_file dw) query = Returns r
      \<and> (is_unsupported r \<or> is_load_error r) \<longrightarrow>
        check_supported_command_tool query dw = (Returns r, dw)
        \<and> check_supported_command_tool query (snd (check_supported_command_tool query dw))
            = (Returns r, dw))"
  by (simp add: check_supported_url_tool_def ise_check_supported_url_tool_def
      url_tool_body_unresolved command_tool_unresolved)

theorem C7_unresolved_query_not_chained_witness:
  "is_unsupported (unsupported_url ''show clock'')
   \<and> check_url_support ''aci_urls.json'' (urls_file apic) ''show clock''
       = Returns (unsupported_url ''show clock'')
   \<and> check_supported_url_tool ''show clock'' apic = (Returns (unsupported_url ''show clock''), apic)
   \<and> check_supported_url_tool ''show clock'' (snd (check_supported_url_tool ''show clock'' apic))
       = (Returns (unsupported_url ''show clock''), apic)
   \<and> check_url_support ''ise_urls.json'' leaf_catalog ''show clock''
       = Returns (unsupported_url ''show clock'')
   \<and> ise_check_supported_url_tool ''show clock'' leaf_catalog = Returns (unsupported_url ''show clock'')
   \<and> is_unsupported (unsupported_command ''traceroute'')
   \<and> check_command_support (commands_file lab_device) ''traceroute''
       = Returns (unsupported_command ''traceroute'')
   \<and> check_supported_command_tool ''traceroute'' lab_device
       = (Returns (unsupported_command ''traceroute''), lab_device)
   \<and> is_load_error (PDict [(''error'', PStr ''URLs file 'aci_urls.json' not found.'')])
   \<and> check_supported_url_tool ''Leaf Nodes'' (apic\<lparr>urls_file := Missing\<rparr>)
       = (Returns (PDict [(''error'', PStr ''URLs file 'aci_urls.json' not found.'')]),
          apic\<lparr>urls_file := Missing\<rparr>)"
proof -
  have u: "is_unsupported (unsupported_url ''show clock'')"
    by (simp add: unsupported_url_def)
  have c: "is_unsupported (unsupported_command ''traceroute'')"
    by (simp add: unsupported_command_def)
  have l: "is_load_error (PDict [(''error'', PStr ''URLs file 'aci_urls.json' not found.'')])"
    by simp
  have f: "urls_file apic = leaf_catalog" by (simp add: apic_def)
  from C7_unresolved_query_not_chained[of apic "''show clock''"
      "unsupported_url ''show clock''" leaf_catalog lab_device]
    C7_unresolved_query_not_chained[of apic "''traceroute''"
      "unsupported_command ''traceroute''" leaf_catalog lab_device]
    C7_unresolved_query_not_chained[of "apic\<lparr>urls_file := Missing\<rparr>" "''Leaf Nodes''"
      "PDict [(''error'', PStr ''URLs file 'aci_urls.json' not found.'')]" leaf_catalog lab_device]
    u c l aci_unsupported cmd_unsupported aci_load_error f
  show ?thesis by simp
qed

subsection \<open>Load failures\<close>

text \<open>
  C5, as amended. When the catalog file is missing, when opening or parsing it raises, or
  when the parsed value is not \<open>loadable\<close> (it is \<^verbatim>\<open>null\<close>, a number, a boolean, a
  non-empty string, a non-empty object, or a list with an entry that is not an object
  with a \<^verbatim>\<open>URL\<close> key), \<^verbatim>\<open>load_urls\<close> returns the error dictionary and
  \<^verbatim>\<open>check_url_support\<close> returns that same dictionary.
\<close>

theorem C5_load_error_propagates:
  assumes "src = Missing \<or> (\<exists>e. src = Unreadable e) \<or> (\<exists>v. src = Parsed v \<and> \<not> loadable v)"
  shows "\<exists>msg. load_urls file_path src = LoadFailed msg
     \<and> check_url_support file_path src api_url = Returns (PDict [(''error'', PStr msg)])"
proof -
  have "\<exists>msg. load_urls file_path src = LoadFailed msg"
    using assms not_loadable_fails by (auto simp: load_urls_def)
  then show ?thesis
    using load_failed_propagates by (auto simp: error_dict_def)
qed

theorem C5_load_error_propagates_witness:
  "(\<exists>msg. load_urls ''aci_urls.json'' Missing = LoadFailed msg
     \<and> check_url_support ''aci_urls.json'' Missing ''Leaf Nodes'' = Returns (PDict [(''error'', PStr msg)]))
   \<and> (\<exists>msg. load_urls ''aci_urls.json'' (Unreadable (OtherError ''Expecting value: line 1 column 1 (char 0)'')) = LoadFailed msg
     \<and> check_url_support ''aci_urls.json'' (Unreadable (OtherError ''Expecting value: line 1 column 1 (char 0)'')) ''Leaf Nodes''
        = Returns (PDict [(''error'', PStr msg)]))
   \<and> \<not> loadable (PList [PDict [(''Name'', PStr ''Leaf Nodes'')]])
   \<and> (\<exists>msg. load_urls ''aci_urls.json'' (Parsed (PList [PDict [(''Name'', PStr ''Leaf Nodes'')]])) = LoadFailed msg
     \<and> check_url_support ''aci_urls.json'' (Parsed (PList [PDict [(''Name'', PStr ''Leaf Nodes'')]])) ''Leaf Nodes''
        = Returns (PDict [(''error'', PStr msg)]))"
  using C5_load_error_propagates[of Missing "''aci_urls.json''" "''Leaf Nodes''"]
    C5_load_error_propagates[of "Unreadable (OtherError ''Expecting value: line 1 column 1 (char 0)'')"
      "''aci_urls.json''" "''Leaf Nodes''"]
    C5_load_error_propagates[of "Parsed (PList [PDict [(''Name'', PStr ''Leaf Nodes'')]])"
      "''aci_urls.json''" "''Leaf Nodes''"]
  by simp

text \<open>
  The claim as stated fails for a file that holds the empty JSON object: it is not a
  catalog in the specified format, yet it loads as the empty catalog and the query is
  reported as unsupported.
\<close>

theorem C5_counterexample:
  "\<not> well_formed_catalog (PDict [])
   \<and> load_urls ''aci_urls.json'' (Parsed (PDict [])) = Loaded []
   \<and> check_url_support ''aci_urls.json'' (Parsed (PDict [])) ''Leaf Nodes''
       = Returns (PDict [(''status'', PStr ''unsupported''),
            (''message'', PStr ''The input 'Leaf Nodes' is not supported. Please check the available URLs or Names.'')])"
  by code_simp

text \<open>
  C10. Whenever the command catalog loads and one of its commands is the string
  \<^verbatim>\<open>"error"\<close>, \<^verbatim>\<open>check_command_support\<close> returns the loaded list itself, for every
  query: no matching takes place and no dictionary with a status is built. The chaining
  tool then raises, since a list has no \<^verbatim>\<open>get\<close>.
\<close>

theorem C10_error_command_returns_list:
  assumes "load_supported_commands (commands_file w) = Loaded command_list"
    and "PStr ''error'' \<in> set command_list"
  shows "check_command_support (commands_file w) command = Returns (PList command_list)
     \<and> check_supported_command_tool command w
         = (Raises (no_get_attribute (PList command_list)), w)"
  using assms
  by (simp add: check_command_support_def check_supported_command_tool_def)

theorem C10_error_command_returns_list_witness:
  "load_supported_commands (commands_file (lab_device\<lparr>commands_file := error_catalog\<rparr>))
     = Loaded [PStr ''show version'', PStr ''error'']
   \<and> check_command_support error_catalog ''show version''
     = Returns (PList [PStr ''show version'', PStr ''error''])"
proof -
  have l: "load_supported_commands (commands_file (lab_device\<lparr>commands_file := error_catalog\<rparr>))
     = Loaded [PStr ''show version'', PStr ''error'']"
    by (simp add: load_supported_commands_def error_catalog_def)
  have m: "PStr ''error'' \<in> set [PStr ''show version'', PStr ''error'']" by simp
  from C10_error_command_returns_list[OF l m, of "''show version''"] l
  show ?thesis by simp
qed

subsection \<open>Creation\<close>

text \<open>
  C6. Whenever the input does not parse to an object whose \<^verbatim>\<open>payload\<close> is a mapping,
  \<^verbatim>\<open>create_aci_data_tool\<close> returns an error dictionary and the world is unchanged: no
  login and no POST is attempted. When the input parses to an object whose
  \<^verbatim>\<open>payload\<close> is absent or is not a mapping, the error is one of the tool's two
  validation messages.
\<close>

theorem C6_non_mapping_payload_rejected:
  "(\<not> (\<exists>kvs p. json_loads input = Inr (PDict kvs) \<and> map_of kvs ''payload'' = Some p \<and> is_dict p)
      \<longrightarrow> (\<exists>msg. create_aci_data_tool json_loads input w = (PDict [(''error'', PStr msg)], w)))
   \<and> (json_loads input = Inr (PDict kvs)
        \<and> (map_of kvs ''payload'' = None \<or> (\<exists>p. map_of kvs ''payload'' = Some p \<and> \<not> is_dict p))
      \<longrightarrow> create_aci_data_tool json_loads input w = (both_required, w)
          \<or> create_aci_data_tool json_loads input w = (payload_not_dict, w))"
proof (intro conjI impI)
  assume h: "\<not> (\<exists>kvs p. json_loads input = Inr (PDict kvs) \<and> map_of kvs ''payload'' = Some p
      \<and> is_dict p)"
  show "\<exists>msg. create_aci_data_tool json_loads input w = (PDict [(''error'', PStr msg)], w)"
  proof (cases "json_loads input")
    case (Inl e)
    then show ?thesis
      by (simp add: create_aci_data_tool_def unexpected_error_def error_dict_def)
  next
    case (Inr data)
    show ?thesis
    proof (cases "is_dict data")
      case False
      with Inr show ?thesis
        by (cases data) (simp_all add: create_aci_data_tool_def unexpected_error_def error_dict_def)
    next
      case True
      then obtain kvs' where d: "data = PDict kvs'" by (cases data) simp_all
      with h Inr have "\<not> is_dict (dict_get kvs' ''payload'')"
        by (cases "map_of kvs' ''payload''") (auto simp: dict_get_def)
      with Inr d show ?thesis
        by (simp add: create_aci_data_tool_def Let_def unexpected_error_def error_dict_def)
    qed
  qed
next
  assume h: "json_loads input = Inr (PDict kvs)
      \<and> (map_of kvs ''payload'' = None \<or> (\<exists>p. map_of kvs ''payload'' = Some p \<and> \<not> is_dict p))"
  then have "\<not> is_dict (dict_get kvs ''payload'')"
    by (auto simp: dict_get_def)
  with h show "create_aci_data_tool json_loads input w = (both_required, w)
      \<or> create_aci_data_tool json_loads input w = (payload_not_dict, w)"
    by (auto simp: create_aci_data_tool_def Let_def both_required_def payload_not_dict_def
        unexpected_error_def error_dict_def sq_def)
qed

theorem C6_non_mapping_payload_rejected_witness:
  "create_aci_data_tool loads_example ''{\"api_url\": \"/api/mo/uni.json\", \"payload\": \"fvTenant\"}'' apic
     = (payload_not_dict, apic)
   \<and> create_aci_data_tool loads_example ''{\"api_url\": \"/api/mo/uni.json\"}'' apic
     = (both_required, apic)
   \<and> (\<exists>msg. create_aci_data_tool loads_example ''fvTenant'' apic
         = (PDict [(''error'', PStr msg)], apic))"
proof -
  let ?i1 = "''{\"api_url\": \"/api/mo/uni.json\", \"payload\": \"fvTenant\"}''"
  let ?i2 = "''{\"api_url\": \"/api/mo/uni.json\"}''"
  have l1: "loads_example ?i1
      = Inr (PDict [(''api_url'', PStr ''/api/mo/uni.json''), (''payload'', PStr ''fvTenant'')])"
    by (simp add: loads_example_def)
  have l2: "loads_example ?i2 = Inr (PDict [(''api_url'', PStr ''/api/mo/uni.json'')])"
    by (simp add: loads_example_def)
  have l3: "loads_example ''fvTenant'' = Inl (OtherError ''Expecting value: line 1 column 1 (char 0)'')"
    by (simp add: loads_example_def)
  have n1: "create_aci_data_tool loads_example ?i1 apic \<noteq> (both_required, apic)"
    by (simp add: create_aci_data_tool_def l1 dict_get_def both_required_def
        unexpected_error_def error_dict_def)
  have n2: "create_aci_data_tool loads_example ?i2 apic \<noteq> (payload_not_dict, apic)"
    by (simp add: create_aci_data_tool_def l2 dict_get_def payload_not_dict_def
        unexpected_error_def error_dict_def sq_def)
  from C6_non_mapping_payload_rejected[where json_loads = loads_example and input = ?i1
      and kvs = "[(''api_url'', PStr ''/api/mo/uni.json''), (''payload'', PStr ''fvTenant'')]"
      and w = apic] l1 n1
  have r1: "create_aci_data_tool loads_example ?i1 apic = (payload_not_dict, apic)"
    by simp
  from C6_non_mapping_payload_rejected[where json_loads = loads_example and input = ?i2
      and kvs = "[(''api_url'', PStr ''/api/mo/uni.json'')]" and w = apic] l2 n2
  have r2: "create_aci_data_tool loads_example ?i2 apic = (both_required, apic)"
    by simp
  from C6_non_mapping_payload_rejected[where json_loads = loads_example and input = "''fvTenant''"
      and kvs = "[]" and w = apic] l3
  have r3: "\<exists>msg. create_aci_data_tool loads_example ''fvTenant'' apic
         = (PDict [(''error'', PStr msg)], apic)"
    by simp
  from r1 r2 r3 show ?thesis by blast
qed

text \<open>
  C9. When the input parses to an object whose \<^verbatim>\<open>payload\<close> is the empty mapping,
  \<^verbatim>\<open>create_aci_data_tool\<close> returns the error dictionary that says both fields must be
  provided, and the world is unchanged.
\<close>

theorem C9_empty_mapping_rejected:
  assumes "json_loads input = Inr (PDict kvs)" and "map_of kvs ''payload'' = Some (PDict [])"
  shows "create_aci_data_tool json_loads input w = (both_required, w)"
  using assms
  by (simp add: create_aci_data_tool_def Let_def dict_get_def both_required_def
      unexpected_error_def error_dict_def sq_def)

theorem C9_empty_mapping_rejected_witness:
  "loads_example ''{\"api_url\": \"/api/mo/uni.json\", \"payload\": {}}''
     = Inr (PDict [(''api_url'', PStr ''/api/mo/uni.json''), (''payload'', PDict [])])
   \<and> create_aci_data_tool loads_example ''{\"api_url\": \"/api/mo/uni.json\", \"payload\": {}}'' apic
     = (both_required, apic)
   \<and> requests (snd (create_aci_data_tool loads_example
        ''{\"api_url\": \"/api/mo/uni.json\", \"payload\": {}}'' apic)) = []"
proof -
  let ?i = "''{\"api_url\": \"/api/mo/uni.json\", \"payload\": {}}''"
  have l: "loads_example ?i
      = Inr (PDict [(''api_url'', PStr ''/api/mo/uni.json''), (''payload'', PDict [])])"
    by (simp add: loads_example_def)
  have h: "map_of [(''api_url'', PStr ''/api/mo/uni.json''), (''payload'', PDict [])] ''payload''
      = Some (PDict [])" by simp
  from C9_empty_mapping_rejected[where json_loads = loads_example and input = ?i
      and kvs = "[(''api_url'', PStr ''/api/mo/uni.json''), (''payload'', PDict [])]"
      and w = apic, OF l h] l
  show ?thesis by (simp add: apic_def)
qed

subsection \<open>Device operations\<close>

text \<open>
  C3, as amended. For every command text in which a denylisted modifier occurs,
  \<^verbatim>\<open>run_show_command\<close> returns the error dictionary naming such a modifier and leaves
  the world untouched: the testbed is not loaded and no connection is attempted.
  \<^verbatim>\<open>apply_device_configuration\<close> has no such test. Whatever the text, its first step is
  to load the testbed; whenever the testbed loads and the connection succeeds, its next
  device call is \<^verbatim>\<open>device.configure\<close> with that very text; and when the device accepts
  the text and disconnects, it reports success.
\<close>

theorem C3_show_commands_reject_modifiers:
  "(modifier \<in> set disallowed_modifiers \<and> str_in modifier command \<longrightarrow>
      (\<exists>m \<in> set disallowed_modifiers. str_in m command
         \<and> run_show_command command w = (modifier_error command m, w)))
   \<and> (\<exists>rest. device_log (snd (apply_device_configuration command w))
         = device_log w @ LoadTestbed # rest)
   \<and> (testbed_resp w = None \<and> connect_resp w = None \<longrightarrow>
        (\<exists>rest. device_log (snd (apply_device_configuration command w))
           = device_log w @ [LoadTestbed, Connect, Configure command] @ rest))
   \<and> (testbed_resp w = None \<and> connect_resp w = None \<and> configure_resp w command = None
        \<and> disconnect_resp w = None \<longrightarrow>
        apply_device_configuration command w
          = (PDict [(''status'', PStr ''success''),
                    (''message'', PStr ''Configuration applied successfully.'')],
             w\<lparr>connected := False,
               device_log := device_log w @ [LoadTestbed, Connect, Configure command, Disconnect]\<rparr>))"
proof (intro conjI impI)
  assume "modifier \<in> set disallowed_modifiers \<and> str_in modifier command"
  with find_modifier obtain m where
    m: "find (\<lambda>modifier. str_in modifier command) disallowed_modifiers = Some m"
      "m \<in> set disallowed_modifiers" "str_in m command" by blast
  then have "run_show_command command w = (modifier_error command m, w)"
    by (simp add: run_show_command_def)
  with m show "\<exists>m \<in> set disallowed_modifiers. str_in m command
         \<and> run_show_command command w = (modifier_error command m, w)" by blast
next
  show "\<exists>rest. device_log (snd (apply_device_configuration command w))
         = device_log w @ LoadTestbed # rest"
    by (rule apply_device_configuration_log)
next
  assume "testbed_resp w = None \<and> connect_resp w = None"
  then show "\<exists>rest. device_log (snd (apply_device_configuration command w))
           = device_log w @ [LoadTestbed, Connect, Configure command] @ rest"
    by (rule apply_device_configuration_configures)
next
  assume "testbed_resp w = None \<and> connect_resp w = None \<and> configure_resp w command = None
        \<and> disconnect_resp w = None"
  then show "apply_device_configuration command w
          = (PDict [(''status'', PStr ''success''),
                    (''message'', PStr ''Configuration applied successfully.'')],
             w\<lparr>connected := False,
               device_log := device_log w @ [LoadTestbed, Connect, Configure command, Disconnect]\<rparr>)"
    by (simp add: apply_device_configuration_def open_device_def close_device_def called_def)
qed

theorem C3_show_commands_reject_modifiers_witness:
  "''|'' \<in> set disallowed_modifiers \<and> str_in ''|'' ''show ip int brief | include up''
   \<and> run_show_command ''show ip int brief | include up'' lab_device
       = (modifier_error ''show ip int brief | include up'' ''|'', lab_device)
   \<and> testbed_resp lab_device = None \<and> connect_resp lab_device = None
   \<and> configure_resp lab_device ''show ip int brief | include up'' = None
   \<and> disconnect_resp lab_device = None
   \<and> (\<exists>rest. device_log (snd (apply_device_configuration ''show ip int brief | include up'' lab_device))
         = [LoadTestbed, Connect, Configure ''show ip int brief | include up''] @ rest)
   \<and> fst (apply_device_configuration ''show ip int brief | include up'' lab_device)
       = PDict [(''status'', PStr ''success''),
                (''message'', PStr ''Configuration applied successfully.'')]"
proof -
  have h: "''|'' \<in> set disallowed_modifiers \<and> str_in ''|'' ''show ip int brief | include up''"
    by (simp add: disallowed_modifiers_def)
  have d: "testbed_resp lab_device = None" "connect_resp lab_device = None"
    "configure_resp lab_device ''show ip int brief | include up'' = None"
    "disconnect_resp lab_device = None" "device_log lab_device = []"
    by (simp_all add: lab_device_def)
  note t = C3_show_commands_reject_modifiers[of "''|''" "''show ip int brief | include up''"
      lab_device]
  from t h obtain m where "run_show_command ''show ip int brief | include up'' lab_device
       = (modifier_error ''show ip int brief | include up'' m, lab_device)" by blast
  moreover have "run_show_command ''show ip int brief | include up'' lab_device
       = (modifier_error ''show ip int brief | include up'' ''|'', lab_device)"
    by (simp only: run_show_command_def pipe_found option.case)
  moreover from t d
  have "\<exists>rest. device_log (snd (apply_device_configuration ''show ip int brief | include up'' lab_device))
         = [LoadTestbed, Connect, Configure ''show ip int brief | include up''] @ rest"
    by simp
  moreover from t d
  have "fst (apply_device_configuration ''show ip int brief | include up'' lab_device)
       = PDict [(''status'', PStr ''success''),
                (''message'', PStr ''Configuration applied successfully.'')]"
    by simp
  ultimately show ?thesis using h d by simp
qed

text \<open>
  The claim as stated fails: the configuration text
  \<^verbatim>\<open>"show ip int brief | include up"\<close> contains the modifier \<^verbatim>\<open>|\<close>, yet on a
  device that accepts it \<^verbatim>\<open>apply_device_configuration\<close> connects, configures,
  disconnects and reports success.
\<close>

theorem C3_counterexample:
  "str_in ''|'' ''show ip int brief | include up''
   \<and> fst (apply_device_configuration ''show ip int brief | include up'' lab_device)
       = PDict [(''status'', PStr ''success''),
                (''message'', PStr ''Configuration applied successfully.'')]
   \<and> device_log (snd (apply_device_configuration ''show ip int brief | include up'' lab_device))
       = [LoadTestbed, Connect, Configure ''show ip int brief | include up'', Disconnect]"
  by (simp add: apply_device_configuration_def open_device_def close_device_def called_def
      lab_device_def)

text \<open>
  C4. The code leaves the connection open on its failure paths. With no parser for
  \<^verbatim>\<open>show version\<close>, \<^verbatim>\<open>run_show_command\<close> connects and returns an error without
  disconnecting; when the device rejects a configuration,
  \<^verbatim>\<open>apply_device_configuration\<close> does the same; and so do \<^verbatim>\<open>execute_show_run\<close> and
  \<^verbatim>\<open>execute_show_logging\<close> when the command times out.
\<close>

theorem C4_connection_left_open:
  "find (\<lambda>modifier. str_in modifier ''show version'') disallowed_modifiers = None
   \<and> fst (run_show_command ''show version'' no_parser_device)
       = PDict [(''error'', PStr ''No parser available for the command: show version'')]
   \<and> device_log (snd (run_show_command ''show version'' no_parser_device))
       = [LoadTestbed, Connect, GetParser ''show version'']
   \<and> connected (snd (run_show_command ''show version'' no_parser_device))
   \<and> fst (apply_device_configuration ''hostname R1'' rejecting_device)
       = PDict [(''error'', PStr ''Invalid input detected'')]
   \<and> device_log (snd (apply_device_configuration ''hostname R1'' rejecting_device))
       = [LoadTestbed, Connect, Configure ''hostname R1'']
   \<and> connected (snd (apply_device_configuration ''hostname R1'' rejecting_device))
   \<and> fst (execute_show_run timeout_device) = PDict [(''error'', PStr ''Timeout occurred'')]
   \<and> device_log (snd (execute_show_run timeout_device))
       = [LoadTestbed, Connect, Execute ''show run brief'']
   \<and> connected (snd (execute_show_run timeout_device))
   \<and> fst (execute_show_logging timeout_device) = PDict [(''error'', PStr ''Timeout occurred'')]
   \<and> device_log (snd (execute_show_logging timeout_device))
       = [LoadTestbed, Connect, Execute ''show logging last 250'']
   \<and> connected (snd (execute_show_logging timeout_device))"
  by (simp add: run_show_command_def apply_device_configuration_def execute_show_run_def
      execute_show_logging_def execute_on_device_def open_device_def
      close_device_def called_def no_parser_device_def rejecting_device_def timeout_device_def
      lab_device_def disallowed_modifiers_def error_dict_def device_error_def)

end
